theory Spec2Isabelle
  imports Complex_Main
begin

section \<open>The cosine series \<open>cos(nx)/n\<close>: embedding of \<open>task_package/zad.py\<close>\<close>

text \<open>
  Conventions of the embedding.
  \<^item> A Python \<open>float\<close> is an IEEE 754 double. A finite double is the real number it
    denotes, and the arguments \<open>x\<close> and \<open>epsilon\<close> are finite. Infinities and NaN are not
    values of the model: the places where the source produces one from finite arguments
    are the places where it raises (\<open>math.cos(inf)\<close>, \<open>math.ceil(inf)\<close>), which the model
    has as errors.
  \<^item> \<open>*\<close> and \<open>/\<close> on floats, and the conversion of an \<open>int\<close> to \<open>float\<close>, round to the
    nearest double, ties to even (\<open>round_double\<close>), and overflow past the largest double
    (\<open>float_overflow\<close>).
  \<^item> \<open>math.cos\<close> and \<open>math.sin\<close> are the C library's functions. Their value at a finite
    double is platform dependent in the last bit, so they are a parameter \<open>lm\<close> of the
    model (record \<open>libm\<close>); theorems hold for every such library.
  \<^item> The sums \<open>partial_sum += term\<close> and \<open>sum(results)\<close>, and the value of \<open>math.log\<close>,
    are kept exact: their rounding changes a returned value in its last bits and decides
    no branch and no exception.
  \<^item> Python's \<open>int\<close> is \<open>int\<close>; \<open>//\<close> on integers is floor division, which is \<open>div\<close>.
  \<^item> A raised exception is the left summand of the result (\<open>Inl\<close>).
  \<^item> The list \<open>results_list\<close> that \<open>calculate_partial_sum\<close> mutates is passed in and
    returned updated. Memory and the number of threads are unbounded.
\<close>

datatype py_error = ZeroDivisionError | IndexError | ValueError | OverflowError

subsection \<open>Double arithmetic\<close>

text \<open>The power of two \<open>2^k\<close> for an integer \<open>k\<close> of either sign.\<close>

definition pow2 :: "int \<Rightarrow> real" where
  "pow2 k = 2 powr of_int k"

text \<open>Rounding to the nearest integer, a tie going to the even neighbour.\<close>

definition round_half_even :: "real \<Rightarrow> int" where
  "round_half_even q =
     (if q - of_int \<lfloor>q\<rfloor> < 1 / 2 then \<lfloor>q\<rfloor>
      else if 1 / 2 < q - of_int \<lfloor>q\<rfloor> then \<lfloor>q\<rfloor> + 1
      else if even \<lfloor>q\<rfloor> then \<lfloor>q\<rfloor> else \<lfloor>q\<rfloor> + 1)"

text \<open>
  The exponent of the last place of a double near \<open>y\<close>: 52 below the binary exponent
  of \<open>y\<close>, and \<open>-1074\<close> throughout the subnormal range.
\<close>

definition ulp_exponent :: "real \<Rightarrow> int" where
  "ulp_exponent y = max \<lfloor>log 2 \<bar>y\<bar>\<rfloor> (- 1022) - 52"

text \<open>
  The double nearest to \<open>y\<close> (53 significant bits), before the range check: the result
  of a float operation whose exact value is \<open>y\<close>.
\<close>

definition round_double :: "real \<Rightarrow> real" where
  "round_double y =
     (if y = 0 then 0
      else sgn y * of_int (round_half_even (\<bar>y\<bar> / pow2 (ulp_exponent y)))
             * pow2 (ulp_exponent y))"

text \<open>The operation overflows (gives an infinity) when the rounded value reaches \<open>2^1024\<close>.\<close>

definition float_overflow :: "real \<Rightarrow> bool" where
  "float_overflow y \<longleftrightarrow> pow2 1024 \<le> \<bar>round_double y\<bar>"

text \<open>
  The conversion of an \<open>int\<close> operand to \<open>float\<close> in \<open>n * x\<close> and \<open>term / n\<close>: it raises
  \<open>OverflowError\<close> (int too large to convert to float) instead of giving an infinity.
\<close>

definition float_of_int :: "int \<Rightarrow> py_error + real" where
  "float_of_int n =
     (if float_overflow (of_int n) then Inl OverflowError
      else Inr (round_double (of_int n)))"

text \<open>
  The C library behind \<open>math.cos\<close> and \<open>math.sin\<close>: the double each returns at a finite
  double argument.
\<close>

record libm =
  libm_cos :: "real \<Rightarrow> real"
  libm_sin :: "real \<Rightarrow> real"

text \<open>
  Two libraries used to run the model on concrete inputs. \<open>exact_libm\<close> returns the exact
  values; it agrees with every C library at \<open>0\<close>, where \<open>cos\<close> is \<open>1\<close> and \<open>sin\<close> is \<open>0\<close>.
  \<open>table_libm\<close> has in addition the double that \<open>math.cos(2.0 ** 1023)\<close> returns,
  \<open>-0.826369834614148\<close>.
\<close>

definition exact_libm :: libm where
  "exact_libm = \<lparr>libm_cos = cos, libm_sin = sin\<rparr>"

definition table_libm :: libm where
  "table_libm =
     \<lparr>libm_cos = (\<lambda>y. if y = pow2 1023 then - 7443277758476991 / 2 ^ 53 else cos y),
      libm_sin = sin\<rparr>"

subsection \<open>One term of the series\<close>

text \<open>
  The expression \<open>math.cos(n * x) / n\<close> of lines 38, 66 and 140, in evaluation order:
  \<open>n\<close> is converted to float (\<open>OverflowError\<close> when too large); the product is rounded,
  and if it overflows \<open>math.cos\<close> receives an infinity and raises \<open>ValueError\<close>; the
  division raises \<open>ZeroDivisionError\<close> when \<open>n\<close> is \<open>0\<close> and rounds the quotient
  otherwise. The quotient itself cannot overflow: a cosine is at most \<open>1\<close> in magnitude
  and a nonzero index converts to a float of magnitude at least \<open>1\<close>.
\<close>

definition series_term :: "libm \<Rightarrow> real \<Rightarrow> int \<Rightarrow> py_error + real" where
  "series_term lm x n =
     (case float_of_int n of
        Inl e \<Rightarrow> Inl e
      | Inr fn \<Rightarrow>
          if float_overflow (fn * x) then Inl ValueError
          else if n = 0 then Inl ZeroDivisionError
          else Inr (round_double (libm_cos lm (round_double (fn * x)) / fn)))"

subsection \<open>Summation over a range of indices\<close>

text \<open>
  The \<open>while n <= end_n\<close> loop of \<open>calculate_partial_sum\<close> (lines 37 to 45); the nested
  \<open>worker\<close> of \<open>calculate_with_threadpool\<close> (lines 139 to 144) is the same loop. The
  arguments are the loop's variables: \<open>partial_sum\<close> is the accumulator and \<open>n\<close> the
  running index.
\<close>

function partial_sum_loop ::
  "libm \<Rightarrow> real \<Rightarrow> int \<Rightarrow> real \<Rightarrow> real \<Rightarrow> int \<Rightarrow> py_error + real" where
  "partial_sum_loop lm x end_n epsilon partial_sum n =
     (if n \<le> end_n then
        (case series_term lm x n of
           Inl e \<Rightarrow> Inl e
         | Inr t \<Rightarrow>
             if \<bar>t\<bar> < epsilon then Inr partial_sum
             else partial_sum_loop lm x end_n epsilon (partial_sum + t) (n + 1))
      else Inr partial_sum)"
  by pat_completeness auto
termination
  by (relation "measure (\<lambda>(lm, x, end_n, epsilon, partial_sum, n). nat (end_n + 1 - n))") auto

declare partial_sum_loop.simps [simp del]

text \<open>
  The assignment \<open>results_list[idx] = partial_sum\<close> (line 47). A negative index counts
  from the end of the list; an index outside \<open>-len .. len - 1\<close> raises \<open>IndexError\<close>.
\<close>

definition list_setitem :: "'a list \<Rightarrow> int \<Rightarrow> 'a \<Rightarrow> py_error + 'a list" where
  "list_setitem xs idx v =
     (if 0 \<le> idx \<and> idx < int (length xs) then Inr (xs[nat idx := v])
      else if - int (length xs) \<le> idx \<and> idx < 0 then Inr (xs[nat (int (length xs) + idx) := v])
      else Inl IndexError)"

text \<open>
  \<open>calculate_partial_sum\<close> (lines 12 to 48): run the loop from \<open>start_n\<close> with the
  accumulator \<open>0.0\<close>, store the sum at \<open>results_list[idx]\<close>, return the sum. The result is
  the returned value together with the list after the call.
\<close>

definition calculate_partial_sum ::
  "libm \<Rightarrow> real \<Rightarrow> int \<Rightarrow> int \<Rightarrow> real \<Rightarrow> real list \<Rightarrow> int \<Rightarrow> py_error + (real \<times> real list)" where
  "calculate_partial_sum lm x start_n end_n epsilon results_list idx =
     (case partial_sum_loop lm x end_n epsilon 0 start_n of
        Inl e \<Rightarrow> Inl e
      | Inr partial_sum \<Rightarrow>
          (case list_setitem results_list idx partial_sum of
             Inl e \<Rightarrow> Inl e
           | Inr results_list' \<Rightarrow> Inr (partial_sum, results_list')))"

subsection \<open>Single-threaded summation\<close>

text \<open>
  The \<open>while True\<close> loop of \<open>calculate_series_sum_single_threaded\<close> (lines 65 to 72) has no
  bound in the code, so it is a partial function: \<open>None\<close> is a run that never leaves the
  loop, \<open>Some\<close> a run that returns or raises.
\<close>

partial_function (option) single_threaded_loop ::
  "libm \<Rightarrow> real \<Rightarrow> real \<Rightarrow> real \<Rightarrow> int \<Rightarrow> (py_error + real \<times> int) option" where
  "single_threaded_loop lm x epsilon total_sum n =
     (case series_term lm x n of
        Inl e \<Rightarrow> Some (Inl e)
      | Inr t \<Rightarrow>
          if \<bar>t\<bar> < epsilon then Some (Inr (total_sum, n))
          else single_threaded_loop lm x epsilon (total_sum + t) (n + 1))"

definition calculate_series_sum_single_threaded ::
  "libm \<Rightarrow> real \<Rightarrow> real \<Rightarrow> (py_error + real \<times> int) option" where
  "calculate_series_sum_single_threaded lm x epsilon = single_threaded_loop lm x epsilon 0 1"

subsection \<open>Partition of the index range\<close>

text \<open>
  \<open>max_n = int(math.ceil(1 / epsilon)) + 100\<close> (lines 92 and 131). \<open>1 / epsilon\<close> raises
  \<open>ZeroDivisionError\<close> when \<open>epsilon\<close> is zero; the quotient is rounded to a double, and
  when it overflows \<open>math.ceil\<close> receives an infinity and raises \<open>OverflowError\<close>. The
  ceiling of a finite double and the addition of \<open>100\<close> are exact integer operations.
\<close>

definition max_terms :: "real \<Rightarrow> py_error + int" where
  "max_terms epsilon =
     (if epsilon = 0 then Inl ZeroDivisionError
      else if float_overflow (1 / epsilon) then Inl OverflowError
      else Inr (\<lceil>round_double (1 / epsilon)\<rceil> + 100))"

text \<open>\<open>chunk_size = max_n // num_threads\<close> (lines 95 and 132).\<close>

definition floor_div :: "int \<Rightarrow> int \<Rightarrow> py_error + int" where
  "floor_div a b = (if b = 0 then Inl ZeroDivisionError else Inr (a div b))"

text \<open>
  The bounds of chunk \<open>i\<close> (lines 101 to 102 and 152 to 153):
  \<open>start_n = i * chunk_size + 1\<close> and
  \<open>end_n = (i + 1) * chunk_size if i < num_threads - 1 else max_n\<close>.
\<close>

definition chunk_bounds :: "int \<Rightarrow> int \<Rightarrow> int \<Rightarrow> int \<Rightarrow> int \<times> int" where
  "chunk_bounds max_n chunk_size num_threads i =
     (i * chunk_size + 1, if i < num_threads - 1 then (i + 1) * chunk_size else max_n)"

text \<open>\<open>range(num_threads)\<close>: the indices \<open>0, 1, ..., num_threads - 1\<close>, none when \<open>num_threads \<le> 0\<close>.\<close>

definition py_range :: "int \<Rightarrow> int list" where
  "py_range k = map int [0..<nat k]"

text \<open>The built-in \<open>sum\<close>: a left-to-right fold that starts from \<open>0\<close>.\<close>

definition py_sum :: "real list \<Rightarrow> real" where
  "py_sum xs = foldl (+) 0 xs"

subsection \<open>One thread per chunk\<close>

text \<open>
  One iteration of the loop of lines 100 to 108 together with the thread it starts: the
  thread runs \<open>calculate_partial_sum\<close> on chunk \<open>i\<close> and slot \<open>i\<close> of \<open>results\<close>; its return
  value is dropped. An exception raised inside a \<open>threading.Thread\<close> ends that thread only
  and is not re-raised by \<open>join\<close>, so the list is then left as it was.

  The threads run concurrently in the source. Each writes its own slot and reads nothing
  another thread writes, so the list after all joins does not depend on the schedule
  (lemma \<open>run_thread_commute\<close> below); the model runs them in the order they are started.
\<close>

definition run_thread ::
  "libm \<Rightarrow> real \<Rightarrow> real \<Rightarrow> int \<Rightarrow> int \<Rightarrow> int \<Rightarrow> real list \<Rightarrow> int \<Rightarrow> real list" where
  "run_thread lm x epsilon max_n chunk_size num_threads results i =
     (case chunk_bounds max_n chunk_size num_threads i of
        (start_n, end_n) \<Rightarrow>
          (case calculate_partial_sum lm x start_n end_n epsilon results i of
             Inl e \<Rightarrow> results
           | Inr (partial_sum, results') \<Rightarrow> results'))"

text \<open>\<open>calculate_series_sum_multi_threaded\<close> (lines 77 to 116).\<close>

definition calculate_series_sum_multi_threaded ::
  "libm \<Rightarrow> real \<Rightarrow> real \<Rightarrow> int \<Rightarrow> py_error + real" where
  "calculate_series_sum_multi_threaded lm x epsilon num_threads =
     (case max_terms epsilon of
        Inl e \<Rightarrow> Inl e
      | Inr max_n \<Rightarrow>
          (case floor_div max_n num_threads of
             Inl e \<Rightarrow> Inl e
           | Inr chunk_size \<Rightarrow>
               Inr (py_sum (foldl (run_thread lm x epsilon max_n chunk_size num_threads)
                              (replicate (nat num_threads) 0) (py_range num_threads)))))"

subsection \<open>A pool of workers\<close>

text \<open>The nested function \<open>worker\<close> (lines 134 to 146).\<close>

definition worker :: "libm \<Rightarrow> real \<Rightarrow> real \<Rightarrow> int \<Rightarrow> int \<Rightarrow> py_error + real" where
  "worker lm x epsilon start_n end_n = partial_sum_loop lm x end_n epsilon 0 start_n"

text \<open>
  \<open>sum(future.result() for future in futures)\<close> (line 157): the results are added in the
  order of submission; \<open>result()\<close> re-raises the exception of a worker that failed.
\<close>

fun sum_futures :: "(py_error + real) list \<Rightarrow> real \<Rightarrow> py_error + real" where
  "sum_futures [] acc = Inr acc"
| "sum_futures (f # fs) acc =
     (case f of Inl e \<Rightarrow> Inl e | Inr v \<Rightarrow> sum_futures fs (acc + v))"

text \<open>
  \<open>calculate_with_threadpool\<close> (lines 119 to 159). The constructor
  \<open>ThreadPoolExecutor(max_workers=num_threads)\<close> of the standard library raises
  \<open>ValueError\<close> when \<open>max_workers \<le> 0\<close>; it is called after \<open>max_n\<close> and \<open>chunk_size\<close> have
  been computed.
\<close>

definition calculate_with_threadpool :: "libm \<Rightarrow> real \<Rightarrow> real \<Rightarrow> int \<Rightarrow> py_error + real" where
  "calculate_with_threadpool lm x epsilon num_threads =
     (case max_terms epsilon of
        Inl e \<Rightarrow> Inl e
      | Inr max_n \<Rightarrow>
          (case floor_div max_n num_threads of
             Inl e \<Rightarrow> Inl e
           | Inr chunk_size \<Rightarrow>
               if num_threads \<le> 0 then Inl ValueError
               else sum_futures
                      (map (\<lambda>i. case chunk_bounds max_n chunk_size num_threads i of
                                   (start_n, end_n) \<Rightarrow> worker lm x epsilon start_n end_n)
                           (py_range num_threads)) 0))"

subsection \<open>The closed form\<close>

text \<open>\<open>math.log\<close> raises \<open>ValueError\<close> (math domain error) on an argument that is not positive.\<close>

definition math_log :: "real \<Rightarrow> py_error + real" where
  "math_log y = (if y \<le> 0 then Inl ValueError else Inr (ln y))"

text \<open>
  \<open>get_control_value\<close> (line 172): \<open>-math.log(2 * math.sin(x / 2))\<close>. The quotient \<open>x / 2\<close>
  is rounded, which matters for a subnormal \<open>x\<close> only; doubling the sine, a double of
  magnitude at most \<open>1\<close>, is exact.
\<close>

definition get_control_value :: "libm \<Rightarrow> real \<Rightarrow> py_error + real" where
  "get_control_value lm x =
     (case math_log (2 * libm_sin lm (round_double (x / 2))) of
        Inl e \<Rightarrow> Inl e
      | Inr l \<Rightarrow> Inr (- l))"

text \<open>
  \<open>math.isclose(a, b)\<close> with its default tolerances \<open>rel_tol = 1e-09\<close> and
  \<open>abs_tol = 0.0\<close>, as the standard library computes it: equal values are close, and
  otherwise the difference is compared with the tolerance scaled by either argument.
\<close>

definition rel_tol :: real where
  "rel_tol = 1 / 10 ^ 9"

definition abs_tol :: real where
  "abs_tol = 0"

definition isclose :: "real \<Rightarrow> real \<Rightarrow> bool" where
  "isclose a b =
     (a = b \<or> \<bar>b - a\<bar> \<le> \<bar>rel_tol * b\<bar> \<or> \<bar>b - a\<bar> \<le> \<bar>rel_tol * a\<bar> \<or> \<bar>b - a\<bar> \<le> abs_tol)"

text \<open>\<open>calculate_analytical_sum\<close> (lines 185 to 187).\<close>

definition calculate_analytical_sum :: "libm \<Rightarrow> real \<Rightarrow> py_error + real" where
  "calculate_analytical_sum lm x =
     (if isclose x pi then
        (case math_log 2 of Inl e \<Rightarrow> Inl e | Inr l \<Rightarrow> Inr (- l))
      else get_control_value lm x)"

subsection \<open>The sum of a run of computed terms\<close>

text \<open>
  The sum of the terms the code computes at the indices \<open>a, ..., b\<close> (\<open>0\<close> when \<open>b < a\<close>).
  It names the value of the accumulator in the statements below and is only used at
  indices whose term is computed without an exception.
\<close>

definition term_sum :: "libm \<Rightarrow> real \<Rightarrow> int \<Rightarrow> int \<Rightarrow> real" where
  "term_sum lm x a b = (\<Sum>k = a..b. projr (series_term lm x k))"


section \<open>Properties of the double arithmetic\<close>

lemma pow2_pos: "0 < pow2 k"
  by (simp add: pow2_def)

lemma pow2_add: "pow2 (a + b) = pow2 a * pow2 b"
  by (simp add: pow2_def powr_add)

lemma pow2_le_iff: "pow2 a \<le> pow2 b \<longleftrightarrow> a \<le> b"
  by (simp add: pow2_def)

lemma pow2_less_iff: "pow2 a < pow2 b \<longleftrightarrow> a < b"
  by (simp add: pow2_def)

lemma pow2_nat: "pow2 (int n) = 2 ^ n"
  by (simp add: pow2_def powr_realpow)

lemma pow2_neg_nat: "pow2 (- int n) = 1 / 2 ^ n"
  by (simp add: pow2_def powr_minus powr_realpow inverse_eq_divide)

lemma pow2_numeral: "pow2 (numeral n) = 2 ^ numeral n"
  using pow2_nat[of "numeral n"] by simp

lemma pow2_neg_numeral: "pow2 (- numeral n) = 1 / 2 ^ numeral n"
  using pow2_neg_nat[of "numeral n"] by simp

lemma pow2_0: "pow2 0 = 1"
  by (simp add: pow2_def)

lemma pow2_1: "pow2 1 = 2"
  by (simp add: pow2_def)

lemma pow2_neg_1: "pow2 (- 1) = 1 / 2"
  using pow2_neg_nat[of 1] by simp

lemma abs_pow2: "\<bar>pow2 k\<bar> = pow2 k"
  by (simp add: pow2_def)

lemma pow2_of_int:
  assumes "0 \<le> d"
  shows "pow2 d = of_int (2 ^ nat d)"
  using pow2_nat[of "nat d"] assms by simp

lemma pow2_split:
  assumes "E \<le> k"
  shows "pow2 k = of_int (2 ^ nat (k - E)) * pow2 E"
proof -
  have "pow2 k = pow2 ((k - E) + E)" by simp
  also have "\<dots> = pow2 (k - E) * pow2 E" by (rule pow2_add)
  finally show ?thesis using assms by (simp add: pow2_of_int)
qed

lemma round_half_even_of_int: "round_half_even (of_int m) = m"
  by (simp add: round_half_even_def)

lemma round_half_even_le:
  assumes "q \<le> of_int m"
  shows "round_half_even q \<le> m"
proof (cases "q = of_int m")
  case True
  then show ?thesis by (simp add: round_half_even_of_int)
next
  case False
  with assms have "q < of_int m" by simp
  then have "\<lfloor>q\<rfloor> < m" by (simp add: floor_less_iff)
  moreover have "round_half_even q \<le> \<lfloor>q\<rfloor> + 1" by (simp add: round_half_even_def)
  ultimately show ?thesis by linarith
qed

lemma round_half_even_ge:
  assumes "of_int m \<le> q"
  shows "m \<le> round_half_even q"
proof -
  have "m \<le> \<lfloor>q\<rfloor>" using assms by (simp add: le_floor_iff)
  moreover have "\<lfloor>q\<rfloor> \<le> round_half_even q" by (simp add: round_half_even_def)
  ultimately show ?thesis by linarith
qed

lemma abs_round_double:
  assumes "y \<noteq> 0"
  shows "\<bar>round_double y\<bar> =
     of_int (round_half_even (\<bar>y\<bar> / pow2 (ulp_exponent y))) * pow2 (ulp_exponent y)"
proof -
  have "of_int 0 \<le> \<bar>y\<bar> / pow2 (ulp_exponent y)" using pow2_pos[of "ulp_exponent y"] by simp
  then have "0 \<le> round_half_even (\<bar>y\<bar> / pow2 (ulp_exponent y))"
    by (rule round_half_even_ge)
  then show ?thesis
    using assms pow2_pos[of "ulp_exponent y"] by (simp add: round_double_def abs_mult)
qed

lemma round_double_ge_exp:
  assumes "y \<noteq> 0" "ulp_exponent y \<le> k" "pow2 k \<le> \<bar>y\<bar>"
  shows "pow2 k \<le> \<bar>round_double y\<bar>"
proof -
  define u where "u = pow2 (ulp_exponent y)"
  define m :: int where "m = 2 ^ nat (k - ulp_exponent y)"
  have u: "0 < u" by (simp add: u_def pow2_pos)
  have split: "pow2 k = of_int m * u"
    unfolding m_def u_def by (rule pow2_split[OF assms(2)])
  have "of_int m \<le> \<bar>y\<bar> / u"
    using assms(3) u unfolding split by (simp add: field_simps)
  then have "m \<le> round_half_even (\<bar>y\<bar> / u)" by (rule round_half_even_ge)
  then have "(of_int m :: real) \<le> of_int (round_half_even (\<bar>y\<bar> / u))"
    by (simp only: of_int_le_iff)
  then have "of_int m * u \<le> of_int (round_half_even (\<bar>y\<bar> / u)) * u"
    using u by (simp only: mult_le_cancel_right_pos)
  then show ?thesis
    unfolding split abs_round_double[OF assms(1)] u_def[symmetric] .
qed

lemma round_double_le_exp:
  assumes "y \<noteq> 0" "ulp_exponent y \<le> k" "\<bar>y\<bar> \<le> pow2 k"
  shows "\<bar>round_double y\<bar> \<le> pow2 k"
proof -
  define u where "u = pow2 (ulp_exponent y)"
  define m :: int where "m = 2 ^ nat (k - ulp_exponent y)"
  have u: "0 < u" by (simp add: u_def pow2_pos)
  have split: "pow2 k = of_int m * u"
    unfolding m_def u_def by (rule pow2_split[OF assms(2)])
  have "\<bar>y\<bar> / u \<le> of_int m"
    using assms(3) u unfolding split by (simp add: field_simps)
  then have "round_half_even (\<bar>y\<bar> / u) \<le> m" by (rule round_half_even_le)
  then have "(of_int (round_half_even (\<bar>y\<bar> / u)) :: real) \<le> of_int m"
    by (simp only: of_int_le_iff)
  then have "of_int (round_half_even (\<bar>y\<bar> / u)) * u \<le> of_int m * u"
    using u by (simp only: mult_le_cancel_right_pos)
  then show ?thesis
    unfolding split abs_round_double[OF assms(1)] u_def[symmetric] .
qed

lemma floor_log2_bounds:
  assumes "y \<noteq> 0"
  shows "pow2 \<lfloor>log 2 \<bar>y\<bar>\<rfloor> \<le> \<bar>y\<bar>" and "\<bar>y\<bar> < pow2 (\<lfloor>log 2 \<bar>y\<bar>\<rfloor> + 1)"
proof -
  have pos: "0 < \<bar>y\<bar>" using assms by simp
  have "\<lfloor>log 2 \<bar>y\<bar>\<rfloor> = \<lfloor>log 2 \<bar>y\<bar>\<rfloor>" ..
  then have "2 powr of_int \<lfloor>log 2 \<bar>y\<bar>\<rfloor> \<le> \<bar>y\<bar> \<and> \<bar>y\<bar> < 2 powr (of_int \<lfloor>log 2 \<bar>y\<bar>\<rfloor> + 1)"
    using floor_log_eq_powr_iff[OF pos, of 2 "\<lfloor>log 2 \<bar>y\<bar>\<rfloor>"] by simp
  then show "pow2 \<lfloor>log 2 \<bar>y\<bar>\<rfloor> \<le> \<bar>y\<bar>" and "\<bar>y\<bar> < pow2 (\<lfloor>log 2 \<bar>y\<bar>\<rfloor> + 1)"
    by (simp_all add: pow2_def)
qed

lemma ulp_exponent_eq:
  assumes "pow2 L \<le> \<bar>y\<bar>" "\<bar>y\<bar> < pow2 (L + 1)"
  shows "ulp_exponent y = max L (- 1022) - 52"
proof -
  have pos: "0 < \<bar>y\<bar>" using assms(1) pow2_pos[of L] by linarith
  have "2 powr of_int L \<le> \<bar>y\<bar> \<and> \<bar>y\<bar> < 2 powr (of_int L + 1)"
    using assms by (simp add: pow2_def)
  then have "\<lfloor>log 2 \<bar>y\<bar>\<rfloor> = L"
    using floor_log_eq_powr_iff[OF pos, of 2 L] by simp
  then show ?thesis by (simp add: ulp_exponent_def)
qed

lemma round_double_lower:
  assumes "- 1074 \<le> k" "pow2 k \<le> \<bar>y\<bar>"
  shows "pow2 k \<le> \<bar>round_double y\<bar>"
proof -
  have y0: "y \<noteq> 0" using assms(2) pow2_pos[of k] by auto
  define L where "L = \<lfloor>log 2 \<bar>y\<bar>\<rfloor>"
  have L: "pow2 L \<le> \<bar>y\<bar>" "\<bar>y\<bar> < pow2 (L + 1)"
    using floor_log2_bounds[OF y0] by (simp_all add: L_def)
  have "pow2 k < pow2 (L + 1)" using assms(2) L(2) by linarith
  then have kL: "k \<le> L" by (simp add: pow2_less_iff)
  show ?thesis
  proof (cases "- 1022 \<le> L")
    case True
    then have "ulp_exponent y \<le> L" by (simp add: ulp_exponent_def L_def)
    from round_double_ge_exp[OF y0 this L(1)]
    have "pow2 L \<le> \<bar>round_double y\<bar>" .
    moreover have "pow2 k \<le> pow2 L" using kL by (simp add: pow2_le_iff)
    ultimately show ?thesis by linarith
  next
    case False
    then have "ulp_exponent y \<le> k" using assms(1) by (simp add: ulp_exponent_def L_def)
    from round_double_ge_exp[OF y0 this assms(2)] show ?thesis .
  qed
qed

lemma round_double_zero: "round_double 0 = 0"
  by (simp add: round_double_def)

lemma round_double_upper:
  assumes "- 1074 \<le> k" "\<bar>y\<bar> \<le> pow2 k"
  shows "\<bar>round_double y\<bar> \<le> pow2 k"
proof (cases "y = 0")
  case True
  then show ?thesis using pow2_pos[of k] by (simp add: round_double_zero)
next
  case False
  define L where "L = \<lfloor>log 2 \<bar>y\<bar>\<rfloor>"
  have L: "pow2 L \<le> \<bar>y\<bar>"
    using floor_log2_bounds(1)[OF False] by (simp add: L_def)
  have "pow2 L \<le> pow2 k" using L assms(2) by linarith
  then have "L \<le> k" by (simp add: pow2_le_iff)
  then have "ulp_exponent y \<le> k" using assms(1) by (simp add: ulp_exponent_def L_def)
  from round_double_le_exp[OF False this assms(2)] show ?thesis .
qed

lemma round_double_nonneg:
  assumes "0 \<le> y"
  shows "0 \<le> round_double y"
proof -
  have "of_int 0 \<le> \<bar>y\<bar> / pow2 (ulp_exponent y)" using pow2_pos[of "ulp_exponent y"] by simp
  then have "0 \<le> round_half_even (\<bar>y\<bar> / pow2 (ulp_exponent y))"
    by (rule round_half_even_ge)
  then show ?thesis
    using assms pow2_pos[of "ulp_exponent y"] by (simp add: round_double_def sgn_if)
qed

lemma round_double_pow2:
  assumes "- 1074 \<le> k"
  shows "round_double (pow2 k) = pow2 k"
proof -
  have p: "\<bar>pow2 k\<bar> = pow2 k" using pow2_pos[of k] by simp
  have "pow2 k \<le> \<bar>round_double (pow2 k)\<bar>"
    by (rule round_double_lower[OF assms]) (simp add: p)
  moreover have "\<bar>round_double (pow2 k)\<bar> \<le> pow2 k"
    by (rule round_double_upper[OF assms]) (simp add: p)
  moreover have "0 \<le> round_double (pow2 k)"
    by (rule round_double_nonneg) (simp add: pow2_pos less_imp_le)
  ultimately show ?thesis by linarith
qed

lemma round_double_of_int:
  assumes "\<bar>m\<bar> < 2 ^ 53"
  shows "round_double (of_int m) = of_int m"
proof (cases "m = 0")
  case True
  then show ?thesis by (simp add: round_double_zero)
next
  case False
  define y :: real where "y = of_int m"
  define L where "L = \<lfloor>log 2 \<bar>y\<bar>\<rfloor>"
  have y0: "y \<noteq> 0" using False by (simp add: y_def)
  have Lb: "pow2 L \<le> \<bar>y\<bar>" "\<bar>y\<bar> < pow2 (L + 1)"
    using floor_log2_bounds[OF y0] by (simp_all add: L_def)
  have "pow2 0 \<le> \<bar>y\<bar>" using False by (simp add: y_def pow2_0)
  with Lb(2) have "pow2 0 < pow2 (L + 1)" by linarith
  then have L0: "0 \<le> L" by (simp add: pow2_less_iff)
  have "\<bar>y\<bar> < pow2 53"
  proof -
    have "(of_int \<bar>m\<bar> :: real) < of_int (2 ^ 53)" using assms by (simp only: of_int_less_iff)
    then show ?thesis by (simp add: y_def pow2_numeral)
  qed
  with Lb(1) have "pow2 L < pow2 53" by linarith
  then have L52: "L \<le> 52" by (simp add: pow2_less_iff)
  define d where "d = nat (52 - L)"
  have E: "ulp_exponent y = L - 52" using L0 by (simp add: ulp_exponent_def L_def)
  have one: "pow2 (52 - L) * pow2 (L - 52) = 1"
    using pow2_add[of "52 - L" "L - 52"] by (simp add: pow2_0)
  have pd: "pow2 (52 - L) = of_int (2 ^ d)" using L52 by (simp add: pow2_of_int d_def)
  have "\<bar>y\<bar> / pow2 (L - 52) = \<bar>y\<bar> * pow2 (52 - L)"
    using one pow2_pos[of "L - 52"] by (simp add: field_simps)
  also have "\<dots> = of_int (\<bar>m\<bar> * 2 ^ d)"
    by (simp add: pd y_def)
  finally have q: "\<bar>y\<bar> / pow2 (L - 52) = of_int (\<bar>m\<bar> * 2 ^ d)" .
  have "round_double y = sgn y * of_int (\<bar>m\<bar> * 2 ^ d) * pow2 (L - 52)"
    using y0 by (simp only: round_double_def E q round_half_even_of_int if_False)
  also have "\<dots> = sgn y * \<bar>y\<bar> * (pow2 (52 - L) * pow2 (L - 52))"
    by (simp add: pd y_def)
  finally show ?thesis by (simp add: one y_def sgn_mult_abs)
qed

lemma round_double_eval:
  assumes "0 < y" "pow2 L \<le> y" "y < pow2 (L + 1)" "- 1022 \<le> L"
  shows "round_double y = of_int (round_half_even (y / pow2 (L - 52))) * pow2 (L - 52)"
proof -
  have "ulp_exponent y = L - 52"
    using ulp_exponent_eq[of L y] assms by simp
  then show ?thesis using assms(1) by (simp add: round_double_def)
qed

lemma pow2_half: "pow2 (k + 1) / 2 = pow2 k"
  using pow2_add[of k 1] by (simp add: pow2_1)


text \<open>The smallest positive double, halved, rounds to zero (a tie, and zero is even).\<close>

lemma round_double_tiny: "round_double (pow2 (- 1074) / 2) = 0"
proof -
  have e: "pow2 (- 1074) / 2 = pow2 (- 1075)"
    using pow2_half[of "- 1075"] by simp
  have u: "ulp_exponent (pow2 (- 1075)) = - 1074"
    using ulp_exponent_eq[of "- 1075" "pow2 (- 1075)"]
    by (simp add: pow2_less_iff abs_pow2)
  have h: "pow2 (- 1075) / pow2 (- 1074) = 1 / 2"
    using e pow2_pos[of "- 1074"] by (simp add: field_simps)
  have r: "round_half_even (1 / 2) = 0"
    by (simp add: round_half_even_def)
  show ?thesis
    unfolding e by (simp add: round_double_def u abs_pow2 h r)
qed


lemma float_overflow_ge:
  assumes "pow2 1024 \<le> \<bar>y\<bar>"
  shows "float_overflow y"
  unfolding float_overflow_def by (rule round_double_lower[OF _ assms]) simp

lemma no_float_overflow_le:
  assumes "- 1074 \<le> k" "k < 1024" "\<bar>y\<bar> \<le> pow2 k"
  shows "\<not> float_overflow y"
proof -
  have "\<bar>round_double y\<bar> \<le> pow2 k" by (rule round_double_upper[OF assms(1,3)])
  moreover have "pow2 k < pow2 1024" using assms(2) by (simp add: pow2_less_iff)
  ultimately show ?thesis by (simp add: float_overflow_def)
qed

lemma float_of_int_small:
  assumes "\<bar>n\<bar> < 2 ^ 53"
  shows "float_of_int n = Inr (of_int n)"
proof -
  have "(of_int \<bar>n\<bar> :: real) < of_int (2 ^ 53)" using assms by (simp only: of_int_less_iff)
  then have "\<bar>of_int n :: real\<bar> \<le> pow2 53" by (simp add: pow2_numeral)
  then have "\<not> float_overflow (of_int n)" by (intro no_float_overflow_le[of 53]) simp_all
  then show ?thesis by (simp add: float_of_int_def round_double_of_int[OF assms])
qed

lemma float_of_int_huge:
  assumes "2 ^ 1024 \<le> n"
  shows "float_of_int n = Inl OverflowError"
proof -
  have "(of_int (2 ^ 1024) :: real) \<le> of_int n" using assms by (simp only: of_int_le_iff)
  then have "pow2 1024 \<le> \<bar>of_int n :: real\<bar>" by (simp add: pow2_numeral)
  then have "float_overflow (of_int n)" by (rule float_overflow_ge)
  then show ?thesis by (simp add: float_of_int_def)
qed

text \<open>
  A positive index that converts at all converts to a float of magnitude at least \<open>1\<close>,
  and one that is at most \<open>2^j\<close> to a float that is at most \<open>2^j\<close>.
\<close>

lemma float_of_int_bounds:
  assumes "1 \<le> n" "float_of_int n = Inr fn"
  shows "1 \<le> fn"
proof -
  have fn: "fn = round_double (of_int n)"
    using assms(2) by (simp add: float_of_int_def split: if_splits)
  have "pow2 0 \<le> \<bar>of_int n :: real\<bar>" using assms(1) by (simp add: pow2_0)
  then have "pow2 0 \<le> \<bar>round_double (of_int n)\<bar>" by (intro round_double_lower) simp_all
  moreover have "0 \<le> round_double (of_int n)"
    using assms(1) by (intro round_double_nonneg) simp
  ultimately show ?thesis by (simp add: fn pow2_0)
qed

lemma float_of_int_le_pow2:
  assumes "1 \<le> n" "n \<le> 2 ^ nat j" "0 \<le> j" "j \<le> 1023"
  shows "\<exists>fn. float_of_int n = Inr fn \<and> 1 \<le> fn \<and> fn \<le> pow2 j"
proof -
  have "(of_int n :: real) \<le> of_int (2 ^ nat j)" using assms(2) by (simp only: of_int_le_iff)
  then have le: "\<bar>of_int n :: real\<bar> \<le> pow2 j"
    using assms(1,3) by (simp add: pow2_of_int)
  have j: "- 1074 \<le> j" "j < 1024" using assms(3,4) by simp_all
  have no: "\<not> float_overflow (of_int n)" by (rule no_float_overflow_le[OF j le])
  then have conv: "float_of_int n = Inr (round_double (of_int n))"
    by (simp add: float_of_int_def)
  have "\<bar>round_double (of_int n)\<bar> \<le> pow2 j" by (rule round_double_upper[OF j(1) le])
  then have "round_double (of_int n) \<le> pow2 j" by simp
  with conv float_of_int_bounds[OF assms(1) conv] show ?thesis by simp
qed

section \<open>Properties of the series term\<close>

lemma no_overflow_zero: "\<not> float_overflow 0"
  using pow2_pos[of 1024] by (simp add: float_overflow_def round_double_zero)

text \<open>At \<open>x = 0\<close> the term of a small index \<open>n\<close> is the double nearest to \<open>1/n\<close>.\<close>

lemma series_term_at_zero:
  assumes "n \<noteq> 0" "\<bar>n\<bar> < 2 ^ 53"
  shows "series_term exact_libm 0 n = Inr (round_double (1 / of_int n))"
  using assms(1)
  by (simp add: series_term_def float_of_int_small[OF assms(2)] no_overflow_zero
      round_double_zero exact_libm_def)

lemma series_term_index_zero: "series_term exact_libm 0 0 = Inl ZeroDivisionError"
proof -
  have "float_of_int 0 = Inr (of_int 0)" by (rule float_of_int_small) simp
  then show ?thesis by (simp add: series_term_def no_overflow_zero)
qed

lemma series_term_huge:
  assumes "2 ^ 1024 \<le> n"
  shows "series_term lm x n = Inl OverflowError"
  by (simp add: series_term_def float_of_int_huge[OF assms])

text \<open>
  While the index is at most \<open>2^j\<close> and \<open>|x| * 2^j\<close> is within range, no step of the term
  overflows.
\<close>

lemma series_term_in_range:
  assumes "1 \<le> n" "n \<le> 2 ^ nat j" "0 \<le> j" "j \<le> 1023" "\<bar>x\<bar> * pow2 j \<le> pow2 1023"
  shows "\<exists>fn. float_of_int n = Inr fn \<and> 1 \<le> fn \<and> fn \<le> pow2 j \<and>
           series_term lm x n = Inr (round_double (libm_cos lm (round_double (fn * x)) / fn))"
proof -
  from float_of_int_le_pow2[OF assms(1-4)]
  obtain fn where fn: "float_of_int n = Inr fn" "1 \<le> fn" "fn \<le> pow2 j" by blast
  have "\<bar>fn * x\<bar> = fn * \<bar>x\<bar>" using fn(2) by (simp add: abs_mult)
  also have "\<dots> \<le> pow2 j * \<bar>x\<bar>" using fn(3) by (intro mult_right_mono) simp_all
  also have "\<dots> \<le> pow2 1023" using assms(5) by (simp add: mult.commute)
  finally have "\<not> float_overflow (fn * x)" by (intro no_float_overflow_le[of 1023]) simp_all
  then have "series_term lm x n = Inr (round_double (libm_cos lm (round_double (fn * x)) / fn))"
    using fn(1) assms(1) by (simp add: series_term_def)
  with fn show ?thesis by blast
qed

lemma series_term_at_pow2:
  assumes "\<And>y. \<bar>libm_cos lm y\<bar> \<le> 1" "0 \<le> j" "j \<le> 1023" "\<bar>x\<bar> * pow2 j \<le> pow2 1023"
  shows "\<exists>t. series_term lm x (2 ^ nat j) = Inr t \<and> \<bar>t\<bar> \<le> pow2 (- j)"
proof -
  have "(1::int) \<le> 2 ^ nat j" by simp
  from series_term_in_range[OF this _ assms(2-4), of lm]
  obtain fn where fn: "float_of_int (2 ^ nat j) = Inr fn" "1 \<le> fn"
    "series_term lm x (2 ^ nat j) = Inr (round_double (libm_cos lm (round_double (fn * x)) / fn))"
    by auto
  have p: "(of_int (2 ^ nat j) :: real) = pow2 j" using assms(2) by (simp add: pow2_of_int)
  have "fn = round_double (of_int (2 ^ nat j))"
    using fn(1) by (simp add: float_of_int_def split: if_splits)
  also have "\<dots> = pow2 j" unfolding p using assms(2) by (intro round_double_pow2) simp
  finally have fnj: "fn = pow2 j" .
  have inv: "1 / pow2 j = pow2 (- j)"
    using pow2_add[of "- j" j] pow2_pos[of j] by (simp add: pow2_0 field_simps)
  define c where "c = libm_cos lm (round_double (fn * x))"
  have "\<bar>c / fn\<bar> = \<bar>c\<bar> / pow2 j" using pow2_pos[of j] by (simp add: fnj)
  also have "\<dots> \<le> 1 / pow2 j"
    using assms(1)[of "round_double (fn * x)"] pow2_pos[of j]
    by (simp add: c_def divide_right_mono)
  finally have "\<bar>c / fn\<bar> \<le> pow2 (- j)" by (simp add: inv)
  then have "\<bar>round_double (c / fn)\<bar> \<le> pow2 (- j)"
    using assms(3) by (intro round_double_upper) simp_all
  with fn(3) show ?thesis by (simp add: c_def)
qed

lemma term_sum_empty: "b < a \<Longrightarrow> term_sum lm x a b = 0"
  by (simp add: term_sum_def)

lemma term_sum_first:
  assumes "n < stop" "series_term lm x n = Inr t"
  shows "term_sum lm x n (stop - 1) = t + term_sum lm x (n + 1) (stop - 1)"
proof -
  have "{n..stop - 1} = insert n {n + 1..stop - 1}" using assms(1) by auto
  then show ?thesis using assms(2) by (simp add: term_sum_def)
qed

section \<open>Properties of the range summation\<close>

text \<open>
  The loop adds the computed terms up to, and not including, the index \<open>stop\<close>: the
  first index that is past \<open>end_n\<close>, or whose term is below \<open>epsilon\<close>, or whose term
  raises.
\<close>

lemma partial_sum_loop_stop:
  "\<exists>stop. n \<le> stop \<and> stop \<le> max n (end_n + 1) \<and>
     (\<forall>k. n \<le> k \<and> k < stop \<longrightarrow>
        k \<le> end_n \<and> (\<exists>t. series_term lm x k = Inr t \<and> \<not> \<bar>t\<bar> < epsilon)) \<and>
     (if end_n < stop then
        partial_sum_loop lm x end_n epsilon acc n = Inr (acc + term_sum lm x n (stop - 1))
      else
        (case series_term lm x stop of
           Inl e \<Rightarrow> partial_sum_loop lm x end_n epsilon acc n = Inl e
         | Inr t \<Rightarrow> \<bar>t\<bar> < epsilon \<and>
             partial_sum_loop lm x end_n epsilon acc n = Inr (acc + term_sum lm x n (stop - 1))))"
proof (induction lm x end_n epsilon acc n rule: partial_sum_loop.induct)
  case (1 lm x end_n epsilon acc n)
  show ?case
  proof (cases "n \<le> end_n")
    case False
    then have "partial_sum_loop lm x end_n epsilon acc n = Inr acc"
      by (subst partial_sum_loop.simps) simp
    then show ?thesis using False by (intro exI[of _ n]) (simp add: term_sum_empty)
  next
    case True
    show ?thesis
    proof (cases "series_term lm x n")
      case (Inl e)
      then have "partial_sum_loop lm x end_n epsilon acc n = Inl e"
        using True by (subst partial_sum_loop.simps) simp
      then show ?thesis using True Inl by (intro exI[of _ n]) simp
    next
      case (Inr t)
      show ?thesis
      proof (cases "\<bar>t\<bar> < epsilon")
        case below: True
        then have "partial_sum_loop lm x end_n epsilon acc n = Inr acc"
          using True Inr by (subst partial_sum_loop.simps) simp
        then show ?thesis
          using True Inr below by (intro exI[of _ n]) (simp add: term_sum_empty)
      next
        case above: False
        have eq: "partial_sum_loop lm x end_n epsilon acc n =
            partial_sum_loop lm x end_n epsilon (acc + t) (n + 1)"
          using True Inr above by (subst partial_sum_loop.simps) simp
        from "1.IH"[OF True Inr above]
        obtain stop where s: "n + 1 \<le> stop" "stop \<le> max (n + 1) (end_n + 1)"
          "\<forall>k. n + 1 \<le> k \<and> k < stop \<longrightarrow>
             k \<le> end_n \<and> (\<exists>t. series_term lm x k = Inr t \<and> \<not> \<bar>t\<bar> < epsilon)"
          "if end_n < stop then
             partial_sum_loop lm x end_n epsilon (acc + t) (n + 1) =
               Inr (acc + t + term_sum lm x (n + 1) (stop - 1))
           else
             (case series_term lm x stop of
                Inl e \<Rightarrow> partial_sum_loop lm x end_n epsilon (acc + t) (n + 1) = Inl e
              | Inr t' \<Rightarrow> \<bar>t'\<bar> < epsilon \<and>
                  partial_sum_loop lm x end_n epsilon (acc + t) (n + 1) =
                    Inr (acc + t + term_sum lm x (n + 1) (stop - 1)))"
          by blast
        have ts: "term_sum lm x n (stop - 1) = t + term_sum lm x (n + 1) (stop - 1)"
          using term_sum_first[of n stop lm x t] s(1) Inr by simp
        have all: "\<forall>k. n \<le> k \<and> k < stop \<longrightarrow>
             k \<le> end_n \<and> (\<exists>t. series_term lm x k = Inr t \<and> \<not> \<bar>t\<bar> < epsilon)"
        proof (intro allI impI)
          fix k assume "n \<le> k \<and> k < stop"
          then consider "k = n" | "n + 1 \<le> k \<and> k < stop" by linarith
          then show "k \<le> end_n \<and> (\<exists>t. series_term lm x k = Inr t \<and> \<not> \<bar>t\<bar> < epsilon)"
            using True Inr above s(3) by cases auto
        qed
        have b: "n \<le> stop" "stop \<le> max n (end_n + 1)" using s(1,2) True by auto
        show ?thesis
        proof (cases "end_n < stop")
          case past: True
          with s(4) have "partial_sum_loop lm x end_n epsilon acc n =
              Inr (acc + term_sum lm x n (stop - 1))"
            by (simp add: eq ts add.assoc)
          with b all past show ?thesis by (intro exI[of _ stop]) simp
        next
          case within: False
          show ?thesis
          proof (cases "series_term lm x stop")
            case (Inl e)
            with s(4) within have "partial_sum_loop lm x end_n epsilon acc n = Inl e"
              by (simp add: eq)
            with b all within Inl show ?thesis by (intro exI[of _ stop]) simp
          next
            case stopterm: (Inr t')
            with s(4) within have "\<bar>t'\<bar> < epsilon"
              "partial_sum_loop lm x end_n epsilon acc n =
                 Inr (acc + term_sum lm x n (stop - 1))"
              by (simp_all add: eq ts add.assoc)
            with b all within stopterm show ?thesis by (intro exI[of _ stop]) simp
          qed
        qed
      qed
    qed
  qed
qed

lemma partial_sum_loop_empty:
  "end_n < n \<Longrightarrow> partial_sum_loop lm x end_n epsilon acc n = Inr acc"
  by (subst partial_sum_loop.simps) simp

lemma list_setitem_valid:
  assumes "- int (length xs) \<le> idx" "idx < int (length xs)"
  shows "list_setitem xs idx v =
     Inr (xs[nat (if idx < 0 then int (length xs) + idx else idx) := v])"
  using assms by (simp add: list_setitem_def)

text \<open>Doubles used in the runs below.\<close>

lemma round_double_one: "round_double 1 = 1"
  using round_double_of_int[of 1] by simp

lemma round_double_half: "round_double (1 / 2) = 1 / 2"
  using round_double_pow2[of "- 1"] by (simp add: pow2_neg_1)

lemma series_term_zero_1: "series_term exact_libm 0 1 = Inr 1"
  using series_term_at_zero[of 1] by (simp add: round_double_one)

lemma series_term_zero_2: "series_term exact_libm 0 2 = Inr (1 / 2)"
  using series_term_at_zero[of 2] by (simp add: round_double_half)

text \<open>Two runs of the function, unfolded step by step.\<close>

lemma calculate_partial_sum_example:
  "calculate_partial_sum exact_libm 0 1 2 (3 / 4) [5, 7] 1 = Inr (1, [5, 1])"
proof -
  have "partial_sum_loop exact_libm 0 2 (3 / 4) 0 1 = Inr 1"
    apply (subst partial_sum_loop.simps, simp add: series_term_zero_1)
    apply (subst partial_sum_loop.simps, simp add: series_term_zero_2)
    done
  then show ?thesis by (simp add: calculate_partial_sum_def list_setitem_def)
qed

lemma calculate_partial_sum_example2:
  "calculate_partial_sum exact_libm 0 1 1 (1 / 2) [9, 9, 9] 2 = Inr (1, [9, 9, 1])"
proof -
  have "partial_sum_loop exact_libm 0 1 (1 / 2) 0 1 = Inr 1"
    apply (subst partial_sum_loop.simps, simp add: series_term_zero_1)
    apply (subst partial_sum_loop.simps, simp)
    done
  then show ?thesis by (simp add: calculate_partial_sum_def list_setitem_def)
qed

text \<open>
  Claim C2, as the code has it. For every \<open>x\<close>, all integers \<open>start_n\<close> and \<open>end_n\<close> and
  every \<open>epsilon\<close>, \<open>calculate_partial_sum\<close> adds the terms \<open>math.cos(n * x) / n\<close> as the
  double arithmetic computes them, for \<open>n\<close> from \<open>start_n\<close> upward, and stops at the first
  index \<open>stop\<close> that is past \<open>end_n\<close>, or whose term is below \<open>epsilon\<close> in absolute value,
  or whose evaluation raises. The stopping term is not added. In the first two cases the
  sum is returned and stored; in the third the exception leaves the function. The loop
  never passes \<open>end_n + 1\<close>, and when the term at \<open>start_n\<close> is already below \<open>epsilon\<close> (or
  the range is empty) the result is \<open>0.0\<close>. The slot \<open>idx\<close> is any index Python accepts
  for \<open>results_list\<close>.
\<close>

theorem calculate_partial_sum_range:
  assumes "- int (length results_list) \<le> idx" and "idx < int (length results_list)"
  shows "\<exists>stop. start_n \<le> stop \<and> stop \<le> max start_n (end_n + 1) \<and>
     (\<forall>n. start_n \<le> n \<and> n < stop \<longrightarrow>
        n \<le> end_n \<and> (\<exists>t. series_term lm x n = Inr t \<and> \<not> \<bar>t\<bar> < epsilon)) \<and>
     (if end_n < stop \<or> (\<exists>t. series_term lm x stop = Inr t \<and> \<bar>t\<bar> < epsilon)
      then calculate_partial_sum lm x start_n end_n epsilon results_list idx =
             Inr (term_sum lm x start_n (stop - 1),
                  results_list[nat (if idx < 0 then int (length results_list) + idx else idx)
                                 := term_sum lm x start_n (stop - 1)])
      else \<exists>e. series_term lm x stop = Inl e \<and>
             calculate_partial_sum lm x start_n end_n epsilon results_list idx = Inl e) \<and>
     (end_n < start_n \<or> (\<exists>t. series_term lm x start_n = Inr t \<and> \<bar>t\<bar> < epsilon) \<longrightarrow>
        calculate_partial_sum lm x start_n end_n epsilon results_list idx =
          Inr (0, results_list[nat (if idx < 0 then int (length results_list) + idx else idx)
                                 := 0]))"
proof -
  let ?j = "nat (if idx < 0 then int (length results_list) + idx else idx)"
  let ?call = "calculate_partial_sum lm x start_n end_n epsilon results_list idx"
  have store: "list_setitem results_list idx v = Inr (results_list[?j := v])" for v
    by (rule list_setitem_valid[OF assms])
  from partial_sum_loop_stop[of start_n end_n lm x epsilon 0]
  obtain stop where s: "start_n \<le> stop" "stop \<le> max start_n (end_n + 1)"
    "\<forall>k. start_n \<le> k \<and> k < stop \<longrightarrow>
       k \<le> end_n \<and> (\<exists>t. series_term lm x k = Inr t \<and> \<not> \<bar>t\<bar> < epsilon)"
    "if end_n < stop then
       partial_sum_loop lm x end_n epsilon 0 start_n = Inr (0 + term_sum lm x start_n (stop - 1))
     else
       (case series_term lm x stop of
          Inl e \<Rightarrow> partial_sum_loop lm x end_n epsilon 0 start_n = Inl e
        | Inr t \<Rightarrow> \<bar>t\<bar> < epsilon \<and>
            partial_sum_loop lm x end_n epsilon 0 start_n =
              Inr (0 + term_sum lm x start_n (stop - 1)))"
    by blast
  have outcome: "if end_n < stop \<or> (\<exists>t. series_term lm x stop = Inr t \<and> \<bar>t\<bar> < epsilon)
      then ?call = Inr (term_sum lm x start_n (stop - 1),
                        results_list[?j := term_sum lm x start_n (stop - 1)])
      else \<exists>e. series_term lm x stop = Inl e \<and> ?call = Inl e"
  proof (cases "end_n < stop")
    case True
    with s(4) show ?thesis by (simp add: calculate_partial_sum_def store)
  next
    case False
    show ?thesis
    proof (cases "series_term lm x stop")
      case (Inl e)
      with s(4) False show ?thesis by (simp add: calculate_partial_sum_def)
    next
      case (Inr t)
      with s(4) False show ?thesis by (simp add: calculate_partial_sum_def store)
    qed
  qed
  have zero: "?call = Inr (0, results_list[?j := 0])"
    if "end_n < start_n \<or> (\<exists>t. series_term lm x start_n = Inr t \<and> \<bar>t\<bar> < epsilon)"
  proof -
    have "partial_sum_loop lm x end_n epsilon 0 start_n = Inr 0"
      using that by (subst partial_sum_loop.simps) auto
    then show ?thesis by (simp add: calculate_partial_sum_def store)
  qed
  show ?thesis
    using s(1-3) outcome zero by (intro exI[of _ stop]) blast
qed

theorem calculate_partial_sum_range_witness:
  "- int (length [5, 7::real]) \<le> 1 \<and> (1::int) < int (length [5, 7::real]) \<and>
   calculate_partial_sum exact_libm 0 1 2 (3 / 4) [5, 7] 1 = Inr (1, [5, 1])"
proof -
  have h2: "- int (length [5, 7::real]) \<le> 1" by simp
  have h3: "(1::int) < int (length [5, 7::real])" by simp
  from calculate_partial_sum_range[OF h2 h3, where start_n = 1 and end_n = 2 and x = 0
      and epsilon = "3 / 4" and lm = exact_libm]
    calculate_partial_sum_example
  show ?thesis by simp
qed

text \<open>
  The claim C2 as it is worded, a sum returned for every \<open>start_n \<ge> 1\<close>, fails where
  an index is too large for a float: with \<open>start_n = end_n = 2 ** 1024\<close> the product
  \<open>n * x\<close> raises \<open>OverflowError\<close> (int too large to convert to float).
\<close>

theorem calculate_partial_sum_range_counterexample:
  "(1::int) \<le> 2 ^ 1024 \<and> (0::real) < 1 \<and>
   calculate_partial_sum exact_libm 0 (2 ^ 1024) (2 ^ 1024) 1 [0] 0 = Inl OverflowError"
proof -
  have "series_term exact_libm 0 (2 ^ 1024) = Inl OverflowError"
    by (rule series_term_huge) simp
  then have "partial_sum_loop exact_libm 0 (2 ^ 1024) 1 0 (2 ^ 1024) = Inl OverflowError"
    by (subst partial_sum_loop.simps) simp
  then show ?thesis by (simp add: calculate_partial_sum_def)
qed

text \<open>
  Claim C9, as the code has it. For every call with \<open>0 \<le> idx < len(results_list)\<close>:
  either the evaluation of a term raises, and the call raises that error before line 47,
  or the call stores the partial sum its loop computed at \<open>results_list[idx]\<close>, returns
  that same value, keeps the length of the list and leaves every element at another
  index unchanged.
\<close>

theorem calculate_partial_sum_frame:
  assumes "0 \<le> idx" and "idx < int (length results_list)"
  shows "(case calculate_partial_sum lm x start_n end_n epsilon results_list idx of
            Inl err \<Rightarrow> partial_sum_loop lm x end_n epsilon 0 start_n = Inl err
          | Inr (partial_sum, results_list') \<Rightarrow>
              partial_sum_loop lm x end_n epsilon 0 start_n = Inr partial_sum \<and>
              length results_list' = length results_list \<and>
              results_list' ! nat idx = partial_sum \<and>
              (\<forall>j. j < length results_list \<and> j \<noteq> nat idx \<longrightarrow>
                 results_list' ! j = results_list ! j))"
proof (cases "partial_sum_loop lm x end_n epsilon 0 start_n")
  case (Inl err)
  then show ?thesis by (simp add: calculate_partial_sum_def)
next
  case (Inr v)
  have "list_setitem results_list idx v = Inr (results_list[nat idx := v])"
    using assms by (simp add: list_setitem_def)
  with Inr assms show ?thesis
    by (simp add: calculate_partial_sum_def)
qed

theorem calculate_partial_sum_frame_witness:
  "(0::int) \<le> 2 \<and> (2::int) < int (length [9, 9, 9::real]) \<and>
   calculate_partial_sum exact_libm 0 1 1 (1 / 2) [9, 9, 9] 2 = Inr (1, [9, 9, 1]) \<and>
   partial_sum_loop exact_libm 0 1 (1 / 2) 0 1 = Inr 1"
proof -
  have h1: "(0::int) \<le> 2" by simp
  have h2: "(2::int) < int (length [9, 9, 9::real])" by simp
  from calculate_partial_sum_frame[OF h1 h2, where x = 0 and start_n = 1 and end_n = 1
      and epsilon = "1 / 2" and lm = exact_libm]
  show ?thesis by (simp add: calculate_partial_sum_example2)
qed

text \<open>
  The claim C9 as it is worded, for every call, fails where a term raises: with
  \<open>start_n = end_n = 0\<close> the first term is \<open>cos(0.0) / 0\<close>, the call raises
  \<open>ZeroDivisionError\<close> and neither stores nor returns a partial sum.
\<close>

theorem calculate_partial_sum_frame_counterexample:
  "(0::int) \<le> 0 \<and> (0::int) < int (length [0::real]) \<and>
   calculate_partial_sum exact_libm 0 0 0 1 [0] 0 = Inl ZeroDivisionError"
proof -
  have "partial_sum_loop exact_libm 0 0 1 0 0 = Inl ZeroDivisionError"
    by (subst partial_sum_loop.simps) (simp add: series_term_index_zero)
  then show ?thesis by (simp add: calculate_partial_sum_def)
qed

text \<open>
  Claim C10. For every \<open>x\<close>, every \<open>epsilon\<close> and every \<open>start_n > end_n\<close>,
  \<open>calculate_partial_sum\<close> returns \<open>0.0\<close> and stores \<open>0.0\<close> at \<open>results_list[idx]\<close> (\<open>idx\<close> any
  index Python accepts, a negative one counting from the end). No term is evaluated:
  the statement includes \<open>start_n = 0\<close>, whose term would raise.
\<close>

theorem calculate_partial_sum_empty_range:
  assumes "end_n < start_n"
    and "- int (length results_list) \<le> idx" and "idx < int (length results_list)"
  shows "calculate_partial_sum lm x start_n end_n epsilon results_list idx =
     Inr (0, results_list[nat (if idx < 0 then int (length results_list) + idx else idx) := 0])"
  using assms by (simp add: calculate_partial_sum_def partial_sum_loop_empty list_setitem_def)

theorem calculate_partial_sum_empty_range_witness:
  "(- 1::int) < 0 \<and> - int (length [2, 3::real]) \<le> - 1 \<and> (- 1::int) < int (length [2, 3::real]) \<and>
   calculate_partial_sum exact_libm 0 0 (- 1) 1 [2, 3] (- 1) = Inr (0, [2, 0])"
  using calculate_partial_sum_empty_range[where end_n = "- 1" and start_n = 0
      and results_list = "[2, 3]" and idx = "- 1" and x = 0 and epsilon = 1 and lm = exact_libm]
  by simp

section \<open>Properties of the single-threaded summation\<close>

text \<open>
  If some index \<open>N \<ge> n\<close> ends the loop (its term raises, or is below \<open>epsilon\<close>), the loop
  started at \<open>n\<close> ends at the first such index, having added the terms before it.
  Induction on the distance to \<open>N\<close>.
\<close>

lemma single_threaded_loop_stop:
  assumes "n \<le> N"
    and "case series_term lm x N of Inl e \<Rightarrow> True | Inr t \<Rightarrow> \<bar>t\<bar> < epsilon"
  shows "\<exists>stop. n \<le> stop \<and> stop \<le> N \<and>
     (\<forall>k. n \<le> k \<and> k < stop \<longrightarrow> (\<exists>t. series_term lm x k = Inr t \<and> \<not> \<bar>t\<bar> < epsilon)) \<and>
     (case series_term lm x stop of
        Inl e \<Rightarrow> single_threaded_loop lm x epsilon acc n = Some (Inl e)
      | Inr t \<Rightarrow> \<bar>t\<bar> < epsilon \<and>
          single_threaded_loop lm x epsilon acc n =
            Some (Inr (acc + term_sum lm x n (stop - 1), stop)))"
  using assms(1)
proof (induction "nat (N - n)" arbitrary: n acc rule: less_induct)
  case less
  show ?case
  proof (cases "series_term lm x n")
    case (Inl e)
    then have "single_threaded_loop lm x epsilon acc n = Some (Inl e)"
      by (subst single_threaded_loop.simps) simp
    with Inl less.prems show ?thesis by (intro exI[of _ n]) simp
  next
    case (Inr t)
    show ?thesis
    proof (cases "\<bar>t\<bar> < epsilon")
      case True
      then have "single_threaded_loop lm x epsilon acc n = Some (Inr (acc, n))"
        using Inr by (subst single_threaded_loop.simps) simp
      with Inr True less.prems show ?thesis
        by (intro exI[of _ n]) (simp add: term_sum_empty)
    next
      case False
      have "n \<noteq> N" using assms(2) Inr False by auto
      with less.prems have lt: "n + 1 \<le> N" by simp
      then have "nat (N - (n + 1)) < nat (N - n)" by simp
      from less.hyps[OF this lt, of "acc + t"]
      obtain stop where s: "n + 1 \<le> stop" "stop \<le> N"
        "\<forall>k. n + 1 \<le> k \<and> k < stop \<longrightarrow>
           (\<exists>t. series_term lm x k = Inr t \<and> \<not> \<bar>t\<bar> < epsilon)"
        "case series_term lm x stop of
           Inl e \<Rightarrow> single_threaded_loop lm x epsilon (acc + t) (n + 1) = Some (Inl e)
         | Inr t' \<Rightarrow> \<bar>t'\<bar> < epsilon \<and>
             single_threaded_loop lm x epsilon (acc + t) (n + 1) =
               Some (Inr (acc + t + term_sum lm x (n + 1) (stop - 1), stop))"
        by blast
      have eq: "single_threaded_loop lm x epsilon acc n =
          single_threaded_loop lm x epsilon (acc + t) (n + 1)"
        using Inr False by (subst single_threaded_loop.simps) simp
      have ts: "term_sum lm x n (stop - 1) = t + term_sum lm x (n + 1) (stop - 1)"
        using term_sum_first[of n stop lm x t] s(1) Inr by simp
      have all: "\<forall>k. n \<le> k \<and> k < stop \<longrightarrow>
           (\<exists>t. series_term lm x k = Inr t \<and> \<not> \<bar>t\<bar> < epsilon)"
      proof (intro allI impI)
        fix k assume "n \<le> k \<and> k < stop"
        then consider "k = n" | "n + 1 \<le> k \<and> k < stop" by linarith
        then show "\<exists>t. series_term lm x k = Inr t \<and> \<not> \<bar>t\<bar> < epsilon"
          using Inr False s(3) by cases auto
      qed
      have b: "n \<le> stop" using s(1) by simp
      show ?thesis
      proof (cases "series_term lm x stop")
        case stoperr: (Inl e)
        with s(4) have "single_threaded_loop lm x epsilon acc n = Some (Inl e)"
          by (simp add: eq)
        with b s(2) all stoperr show ?thesis by (intro exI[of _ stop]) simp
      next
        case stopterm: (Inr t')
        with s(4) have "\<bar>t'\<bar> < epsilon"
          "single_threaded_loop lm x epsilon acc n =
             Some (Inr (acc + term_sum lm x n (stop - 1), stop))"
          by (simp_all add: eq ts add.assoc)
        with b s(2) all stopterm show ?thesis by (intro exI[of _ stop]) simp
      qed
    qed
  qed
qed

text \<open>
  The loop always ends: the index \<open>2 ** 1024\<close> is too large for a float, so its term
  raises \<open>OverflowError\<close> if nothing ended the loop before.
\<close>

lemma single_threaded_stop:
  "\<exists>stop. 1 \<le> stop \<and>
     (\<forall>k. 1 \<le> k \<and> k < stop \<longrightarrow> (\<exists>t. series_term lm x k = Inr t \<and> \<not> \<bar>t\<bar> < epsilon)) \<and>
     (case series_term lm x stop of
        Inl e \<Rightarrow> calculate_series_sum_single_threaded lm x epsilon = Some (Inl e)
      | Inr t \<Rightarrow> \<bar>t\<bar> < epsilon \<and>
          calculate_series_sum_single_threaded lm x epsilon =
            Some (Inr (term_sum lm x 1 (stop - 1), stop)))"
proof -
  have N: "case series_term lm x (2 ^ 1024) of Inl e \<Rightarrow> True | Inr t \<Rightarrow> \<bar>t\<bar> < epsilon"
    by (simp add: series_term_huge)
  have "(1::int) \<le> 2 ^ 1024" by simp
  from single_threaded_loop_stop[OF this N, of 0]
  obtain stop where s: "1 \<le> stop"
    "\<forall>k. 1 \<le> k \<and> k < stop \<longrightarrow> (\<exists>t. series_term lm x k = Inr t \<and> \<not> \<bar>t\<bar> < epsilon)"
    "case series_term lm x stop of
       Inl e \<Rightarrow> single_threaded_loop lm x epsilon 0 1 = Some (Inl e)
     | Inr t \<Rightarrow> \<bar>t\<bar> < epsilon \<and>
         single_threaded_loop lm x epsilon 0 1 =
           Some (Inr (0 + term_sum lm x 1 (stop - 1), stop))"
    by blast
  have "case series_term lm x stop of
       Inl e \<Rightarrow> calculate_series_sum_single_threaded lm x epsilon = Some (Inl e)
     | Inr t \<Rightarrow> \<bar>t\<bar> < epsilon \<and>
         calculate_series_sum_single_threaded lm x epsilon =
           Some (Inr (term_sum lm x 1 (stop - 1), stop))"
    using s(3) unfolding calculate_series_sum_single_threaded_def
    by (cases "series_term lm x stop") simp_all
  with s(1,2) show ?thesis by blast
qed

text \<open>
  With a cosine that stays in \<open>[-1, 1]\<close>, and an index \<open>2^j\<close> whose reciprocal is below
  \<open>epsilon\<close> and up to which \<open>n * x\<close> stays in range, the loop returns by that index.
\<close>

lemma single_threaded_returns:
  assumes "\<And>y. \<bar>libm_cos lm y\<bar> \<le> 1" "0 \<le> j" "j \<le> 1023" "pow2 (- j) < epsilon"
    "\<bar>x\<bar> * pow2 j \<le> pow2 1023"
  shows "\<exists>total_sum n. 1 \<le> n \<and> n \<le> 2 ^ nat j \<and>
     calculate_series_sum_single_threaded lm x epsilon = Some (Inr (total_sum, n))"
proof -
  from series_term_at_pow2[OF assms(1,2,3,5)]
  obtain t where t: "series_term lm x (2 ^ nat j) = Inr t" "\<bar>t\<bar> \<le> pow2 (- j)" by blast
  then have N: "case series_term lm x (2 ^ nat j) of Inl e \<Rightarrow> True | Inr t \<Rightarrow> \<bar>t\<bar> < epsilon"
    using assms(4) by simp
  have "(1::int) \<le> 2 ^ nat j" by simp
  from single_threaded_loop_stop[OF this N, of 0]
  obtain stop where s: "1 \<le> stop" "stop \<le> 2 ^ nat j"
    "case series_term lm x stop of
       Inl e \<Rightarrow> single_threaded_loop lm x epsilon 0 1 = Some (Inl e)
     | Inr t \<Rightarrow> \<bar>t\<bar> < epsilon \<and>
         single_threaded_loop lm x epsilon 0 1 =
           Some (Inr (0 + term_sum lm x 1 (stop - 1), stop))"
    by blast
  from series_term_in_range[OF s(1,2) assms(2,3,5), of lm]
  obtain t' where "series_term lm x stop = Inr t'" by blast
  with s(3) have "single_threaded_loop lm x epsilon 0 1 =
      Some (Inr (0 + term_sum lm x 1 (stop - 1), stop))"
    by simp
  with s(1,2) show ?thesis
    unfolding calculate_series_sum_single_threaded_def by blast
qed

text \<open>Doubles near \<open>1/3\<close>, \<open>1/4\<close>, \<open>1/5\<close> and \<open>1/6\<close>; the last hex digit of \<open>0.2\<close> is rounded up.\<close>

lemma round_double_third: "round_double (1 / 3) = 6004799503160661 / 2 ^ 54"
proof -
  have "round_double (1 / 3) = of_int (round_half_even ((1 / 3) / pow2 (- 2 - 52))) * pow2 (- 2 - 52)"
    by (rule round_double_eval) (simp_all add: pow2_neg_numeral pow2_neg_1)
  also have "\<dots> = 6004799503160661 / 2 ^ 54"
    by (simp add: pow2_neg_numeral round_half_even_def)
  finally show ?thesis .
qed

lemma round_double_quarter: "round_double (1 / 4) = 1 / 4"
  using round_double_pow2[of "- 2"] by (simp add: pow2_neg_numeral)

lemma round_double_fifth: "round_double (1 / 5) = 3602879701896397 / 2 ^ 54"
proof -
  have "round_double (1 / 5) = of_int (round_half_even ((1 / 5) / pow2 (- 3 - 52))) * pow2 (- 3 - 52)"
    by (rule round_double_eval) (simp_all add: pow2_neg_numeral)
  also have "\<dots> = 3602879701896397 / 2 ^ 54"
    by (simp add: pow2_neg_numeral round_half_even_def)
  finally show ?thesis .
qed

lemma round_double_sixth: "round_double (1 / 6) = 6004799503160661 / 2 ^ 55"
proof -
  have "round_double (1 / 6) = of_int (round_half_even ((1 / 6) / pow2 (- 3 - 52))) * pow2 (- 3 - 52)"
    by (rule round_double_eval) (simp_all add: pow2_neg_numeral)
  also have "\<dots> = 6004799503160661 / 2 ^ 55"
    by (simp add: pow2_neg_numeral round_half_even_def)
  finally show ?thesis .
qed

lemma series_term_zero_3: "series_term exact_libm 0 3 = Inr (6004799503160661 / 2 ^ 54)"
  using series_term_at_zero[of 3] by (simp add: round_double_third)

lemma series_term_zero_4: "series_term exact_libm 0 4 = Inr (1 / 4)"
  using series_term_at_zero[of 4] by (simp add: round_double_quarter)

lemma series_term_zero_5: "series_term exact_libm 0 5 = Inr (3602879701896397 / 2 ^ 54)"
  using series_term_at_zero[of 5] by (simp add: round_double_fifth)

lemma series_term_zero_6: "series_term exact_libm 0 6 = Inr (6004799503160661 / 2 ^ 55)"
  using series_term_at_zero[of 6] by (simp add: round_double_sixth)

text \<open>A run unfolded step by step: at \<open>x = 0\<close> the terms are the doubles \<open>1, 0.5, ...\<close>.\<close>

lemma single_threaded_example:
  "calculate_series_sum_single_threaded exact_libm 0 (3 / 4) = Some (Inr (1, 2))"
  unfolding calculate_series_sum_single_threaded_def
  apply (subst single_threaded_loop.simps, simp add: series_term_zero_1)
  apply (subst single_threaded_loop.simps, simp add: series_term_zero_2)
  done

lemma single_threaded_example2:
  "calculate_series_sum_single_threaded exact_libm 0 1 = Some (Inr (1, 2))"
  unfolding calculate_series_sum_single_threaded_def
  apply (subst single_threaded_loop.simps, simp add: series_term_zero_1)
  apply (subst single_threaded_loop.simps, simp add: series_term_zero_2)
  done

text \<open>
  Claim C1, as the code has it. For every \<open>x\<close> and every \<open>epsilon\<close>,
  \<open>calculate_series_sum_single_threaded\<close> ends at an index \<open>stop \<ge> 1\<close>: the first index
  whose term \<open>math.cos(n * x) / n\<close>, as the double arithmetic computes it, is below
  \<open>epsilon\<close> in absolute value or raises. In the first case it returns
  \<open>(sum, terms_counted)\<close> with \<open>terms_counted = stop > 0\<close> and \<open>sum\<close> the sum of the computed
  terms for \<open>k = 1 .. terms_counted - 1\<close> (the term that fails the threshold is not added);
  in the second the exception leaves the function.
\<close>

theorem single_threaded_result:
  "\<exists>stop. 1 \<le> stop \<and>
     (\<forall>k. 1 \<le> k \<and> k < stop \<longrightarrow> (\<exists>t. series_term lm x k = Inr t \<and> \<not> \<bar>t\<bar> < epsilon)) \<and>
     (case series_term lm x stop of
        Inl e \<Rightarrow> calculate_series_sum_single_threaded lm x epsilon = Some (Inl e)
      | Inr t \<Rightarrow> \<bar>t\<bar> < epsilon \<and>
          calculate_series_sum_single_threaded lm x epsilon =
            Some (Inr (term_sum lm x 1 (stop - 1), stop)))"
  by (rule single_threaded_stop)

theorem single_threaded_result_witness:
  "calculate_series_sum_single_threaded exact_libm 0 (3 / 4) = Some (Inr (1, 2)) \<and>
   series_term exact_libm 0 1 = Inr 1 \<and> series_term exact_libm 0 2 = Inr (1 / 2)"
  using single_threaded_result[where lm = exact_libm and x = 0 and epsilon = "3 / 4"]
    single_threaded_example series_term_zero_1 series_term_zero_2
  by simp

text \<open>
  The claim C1 as it is worded, with the exact value of \<open>cos(n*x)/n\<close>, fails at \<open>x = 0.0\<close>
  and \<open>epsilon = 0.2\<close>, the double \<open>3602879701896397 / 2^54\<close>, which is a little above \<open>1/5\<close>.
  The exact fifth term \<open>1/5\<close> is below \<open>epsilon\<close>, but the code computes \<open>1.0 / 5\<close>, which
  rounds to \<open>epsilon\<close> itself and is not below it: the code adds that term and returns
  \<open>terms_counted = 6\<close> (the second component of its result), not \<open>5\<close>.
\<close>

theorem single_threaded_result_counterexample:
  "(0::real) < 3602879701896397 / 2 ^ 54 \<and>
   \<bar>cos (5 * 0) / 5\<bar> < (3602879701896397 / 2 ^ 54 :: real) \<and>
   map_option (map_sum id snd)
     (calculate_series_sum_single_threaded exact_libm 0 (3602879701896397 / 2 ^ 54)) =
     Some (Inr 6)"
proof -
  have "single_threaded_loop exact_libm 0 (3602879701896397 / 2 ^ 54) 0 1 =
     Some (Inr (1 + 1 / 2 + 6004799503160661 / 2 ^ 54 + 1 / 4 + 3602879701896397 / 2 ^ 54, 6))"
    apply (subst single_threaded_loop.simps, simp add: series_term_zero_1)
    apply (subst single_threaded_loop.simps, simp add: series_term_zero_2)
    apply (subst single_threaded_loop.simps, simp add: series_term_zero_3)
    apply (subst single_threaded_loop.simps, simp add: series_term_zero_4)
    apply (subst single_threaded_loop.simps, simp add: series_term_zero_5)
    apply (subst single_threaded_loop.simps, simp add: series_term_zero_6)
    done
  then show ?thesis by (simp add: calculate_series_sum_single_threaded_def)
qed

text \<open>
  With a threshold below every term a float index can produce, the loop runs until the
  index itself no longer converts to a float.
\<close>

lemma tiny_epsilon_runs_out:
  assumes "1 \<le> n" "n \<le> 2 ^ 1024"
  shows "single_threaded_loop exact_libm 0 (pow2 (- 1074)) acc n = Some (Inl OverflowError)"
  using assms
proof (induction "nat (2 ^ 1024 - n)" arbitrary: n acc rule: less_induct)
  case less
  show ?case
  proof (cases "float_of_int n")
    case (Inl e)
    then have "e = OverflowError" by (simp add: float_of_int_def split: if_splits)
    with Inl have "series_term exact_libm 0 n = Inl OverflowError"
      by (simp add: series_term_def)
    then show ?thesis by (subst single_threaded_loop.simps) simp
  next
    case (Inr fn)
    have fn1: "1 \<le> fn" by (rule float_of_int_bounds[OF less.prems(1) Inr])
    have small: "\<bar>fn\<bar> < pow2 1024"
      using Inr by (simp add: float_of_int_def float_overflow_def split: if_splits)
    have "n \<noteq> 2 ^ 1024" using float_of_int_huge[of n] Inr by auto
    with less.prems(2) have next_le: "n + 1 \<le> 2 ^ 1024" by simp
    have one: "pow2 (- 1024) * pow2 1024 = 1"
      using pow2_add[of "- 1024" 1024] by (simp add: pow2_0)
    have "pow2 (- 1024) * fn \<le> pow2 (- 1024) * pow2 1024"
      using small pow2_pos[of "- 1024"] by (intro mult_left_mono) simp_all
    then have "pow2 (- 1024) \<le> 1 / fn" using fn1 one by (simp add: field_simps)
    then have "pow2 (- 1024) \<le> \<bar>1 / fn\<bar>" using fn1 by simp
    then have "pow2 (- 1024) \<le> \<bar>round_double (1 / fn)\<bar>"
      by (intro round_double_lower) simp_all
    moreover have "pow2 (- 1074) \<le> pow2 (- 1024)" by (simp add: pow2_le_iff)
    ultimately have above: "\<not> \<bar>round_double (1 / fn)\<bar> < pow2 (- 1074)" by linarith
    have tm: "series_term exact_libm 0 n = Inr (round_double (1 / fn))"
      using Inr less.prems(1)
      by (simp add: series_term_def no_overflow_zero round_double_zero exact_libm_def)
    have "single_threaded_loop exact_libm 0 (pow2 (- 1074)) acc n =
        single_threaded_loop exact_libm 0 (pow2 (- 1074)) (acc + round_double (1 / fn)) (n + 1)"
      using tm above by (subst single_threaded_loop.simps) simp
    also have "\<dots> = Some (Inl OverflowError)"
      using less.prems(1) next_le by (intro less.hyps) simp_all
    finally show ?thesis .
  qed
qed

text \<open>
  Claim C5, as the code has it. For every \<open>x\<close> and every \<open>epsilon\<close>,
  \<open>calculate_series_sum_single_threaded\<close> terminates: it returns or raises, and never
  stays in the loop. When it returns \<open>(sum, n)\<close>, the computed term at \<open>n \<ge> 1\<close> is below
  \<open>epsilon\<close>. It does return, with \<open>n \<le> 2^j\<close>, whenever the library's cosine stays in
  \<open>[-1, 1]\<close> and some \<open>j\<close> from \<open>0\<close> to \<open>1023\<close> has \<open>2^-j < epsilon\<close> and \<open>|x| * 2^j \<le> 2^1023\<close>
  (the computed term is at most \<open>1/n\<close> in magnitude, and \<open>n * x\<close> stays in range up to
  that index).
\<close>

theorem single_threaded_terminates:
  "calculate_series_sum_single_threaded lm x epsilon \<noteq> None \<and>
   (\<forall>total_sum n. calculate_series_sum_single_threaded lm x epsilon = Some (Inr (total_sum, n)) \<longrightarrow>
      1 \<le> n \<and> (\<exists>t. series_term lm x n = Inr t \<and> \<bar>t\<bar> < epsilon)) \<and>
   ((\<forall>y. \<bar>libm_cos lm y\<bar> \<le> 1) \<and> 0 \<le> j \<and> j \<le> 1023 \<and> pow2 (- j) < epsilon \<and>
      \<bar>x\<bar> * pow2 j \<le> pow2 1023 \<longrightarrow>
    (\<exists>total_sum n. 1 \<le> n \<and> n \<le> 2 ^ nat j \<and>
       calculate_series_sum_single_threaded lm x epsilon = Some (Inr (total_sum, n))))"
proof -
  from single_threaded_stop[of lm x epsilon]
  obtain stop where s: "1 \<le> stop"
    "case series_term lm x stop of
       Inl e \<Rightarrow> calculate_series_sum_single_threaded lm x epsilon = Some (Inl e)
     | Inr t \<Rightarrow> \<bar>t\<bar> < epsilon \<and>
         calculate_series_sum_single_threaded lm x epsilon =
           Some (Inr (term_sum lm x 1 (stop - 1), stop))"
    by blast
  have a: "calculate_series_sum_single_threaded lm x epsilon \<noteq> None"
    using s(2) by (cases "series_term lm x stop") simp_all
  have b: "1 \<le> n \<and> (\<exists>t. series_term lm x n = Inr t \<and> \<bar>t\<bar> < epsilon)"
    if "calculate_series_sum_single_threaded lm x epsilon = Some (Inr (total_sum, n))"
    for total_sum n
    using s that by (cases "series_term lm x stop") auto
  have c: "\<exists>total_sum n. 1 \<le> n \<and> n \<le> 2 ^ nat j \<and>
       calculate_series_sum_single_threaded lm x epsilon = Some (Inr (total_sum, n))"
    if "(\<forall>y. \<bar>libm_cos lm y\<bar> \<le> 1) \<and> 0 \<le> j \<and> j \<le> 1023 \<and> pow2 (- j) < epsilon \<and>
      \<bar>x\<bar> * pow2 j \<le> pow2 1023"
    using that by (intro single_threaded_returns) simp_all
  from a b c show ?thesis by blast
qed

theorem single_threaded_terminates_witness:
  "(0::int) \<le> 1 \<and> (1::int) \<le> 1023 \<and> pow2 (- 1) < 1 \<and> \<bar>0\<bar> * pow2 1 \<le> pow2 1023 \<and>
   calculate_series_sum_single_threaded exact_libm 0 1 = Some (Inr (1, 2))"
proof -
  have cosb: "\<forall>y. \<bar>libm_cos exact_libm y\<bar> \<le> 1" by (simp add: exact_libm_def)
  have h: "pow2 (- 1) < 1" "\<bar>0\<bar> * pow2 1 \<le> pow2 1023"
    using pow2_pos[of 1023] by (simp_all add: pow2_neg_1)
  from single_threaded_terminates[where lm = exact_libm and x = 0 and epsilon = 1 and j = 1]
    cosb h
  have "\<exists>total_sum n. 1 \<le> n \<and> n \<le> 2 ^ nat 1 \<and>
       calculate_series_sum_single_threaded exact_libm 0 1 = Some (Inr (total_sum, n))"
    by simp
  with h single_threaded_example2 show ?thesis by simp
qed

text \<open>
  The claim C5 as it is worded, an index with a term below \<open>epsilon\<close> is always reached,
  fails at \<open>x = 0.0\<close> and \<open>epsilon = 5e-324\<close>, the smallest positive double \<open>2^-1074\<close>: every
  term \<open>1.0 / n\<close> with \<open>n\<close> in the float range is at least \<open>2^-1024\<close>, so the loop runs until
  \<open>n * x\<close> raises \<open>OverflowError\<close> (int too large to convert to float).
\<close>

theorem single_threaded_terminates_counterexample:
  "0 < pow2 (- 1074) \<and>
   calculate_series_sum_single_threaded exact_libm 0 (pow2 (- 1074)) = Some (Inl OverflowError)"
proof -
  have "single_threaded_loop exact_libm 0 (pow2 (- 1074)) 0 1 = Some (Inl OverflowError)"
    by (rule tiny_epsilon_runs_out) simp_all
  then show ?thesis
    by (simp add: calculate_series_sum_single_threaded_def pow2_pos)
qed

section \<open>Properties of the partition\<close>

lemma max_terms_finite:
  assumes "0 < epsilon" "\<not> float_overflow (1 / epsilon)"
  shows "max_terms epsilon = Inr (\<lceil>round_double (1 / epsilon)\<rceil> + 100)"
    and "0 \<le> \<lceil>round_double (1 / epsilon)\<rceil> + 100"
proof -
  show "max_terms epsilon = Inr (\<lceil>round_double (1 / epsilon)\<rceil> + 100)"
    using assms by (simp add: max_terms_def)
  have "0 \<le> round_double (1 / epsilon)" using assms(1) by (intro round_double_nonneg) simp
  then have "0 \<le> \<lceil>round_double (1 / epsilon)\<rceil>" by (simp add: zero_le_ceiling)
  then show "0 \<le> \<lceil>round_double (1 / epsilon)\<rceil> + 100" by simp
qed

lemma max_terms_tiny: "max_terms (pow2 (- 1074)) = Inl OverflowError"
proof -
  have one: "pow2 1074 * pow2 (- 1074) = 1"
    using pow2_add[of 1074 "- 1074"] by (simp add: pow2_0)
  then have inv: "1 / pow2 (- 1074) = pow2 1074"
    using pow2_pos[of "- 1074"] by (simp add: field_simps)
  have "pow2 1024 \<le> \<bar>pow2 1074\<bar>" by (simp add: abs_pow2 pow2_le_iff)
  then have "float_overflow (1 / pow2 (- 1074))" unfolding inv by (rule float_overflow_ge)
  then show ?thesis using pow2_pos[of "- 1074"] by (simp add: max_terms_def)
qed

lemma round_double_two: "round_double 2 = 2"
  using round_double_of_int[of 2] by simp

lemma no_overflow_small: "\<bar>y\<bar> \<le> 2 \<Longrightarrow> \<not> float_overflow y"
  by (rule no_float_overflow_le[of 1]) (simp_all add: pow2_1)

lemma chunk_size_bounds:
  fixes max_n num_threads :: int
  assumes "0 \<le> max_n" "1 \<le> num_threads"
  shows "0 \<le> max_n div num_threads" and "num_threads * (max_n div num_threads) \<le> max_n"
proof -
  show "0 \<le> max_n div num_threads" using assms by (simp add: pos_imp_zdiv_nonneg_iff)
  have "max_n = num_threads * (max_n div num_threads) + max_n mod num_threads" by simp
  moreover have "0 \<le> max_n mod num_threads" using assms by simp
  ultimately show "num_threads * (max_n div num_threads) \<le> max_n" by linarith
qed

text \<open>The first \<open>m\<close> inner chunks tile the interval from \<open>1\<close> to \<open>m * chunk_size\<close>.\<close>

lemma chunk_union_prefix:
  fixes cs :: int
  assumes "0 \<le> cs"
  shows "(\<Union>i<m. {int i * cs + 1..(int i + 1) * cs}) = {1..int m * cs}"
proof (induction m)
  case 0
  show ?case by simp
next
  case (Suc m)
  define p where "p = int m * cs"
  have a: "0 \<le> p" using assms by (simp add: p_def)
  have b: "(int m + 1) * cs = p + cs" "int (Suc m) * cs = p + cs"
    by (simp_all add: p_def algebra_simps)
  have "(\<Union>i<Suc m. {int i * cs + 1..(int i + 1) * cs}) =
        (\<Union>i<m. {int i * cs + 1..(int i + 1) * cs}) \<union> {int m * cs + 1..(int m + 1) * cs}"
    by (simp add: lessThan_Suc Un_commute)
  also have "\<dots> = {1..p} \<union> {p + 1..p + cs}"
    by (simp only: Suc.IH b(1) p_def[symmetric])
  also have "\<dots> = {1..p + cs}"
    using a assms by auto
  finally show ?case by (simp only: b(2))
qed

lemma chunk_bounds_inner:
  "i < num_threads - 1 \<Longrightarrow>
   chunk_bounds max_n chunk_size num_threads i = (i * chunk_size + 1, (i + 1) * chunk_size)"
  by (simp add: chunk_bounds_def)

lemma chunk_bounds_last:
  "chunk_bounds max_n chunk_size num_threads (num_threads - 1) =
     ((num_threads - 1) * chunk_size + 1, max_n)"
  by (simp add: chunk_bounds_def)

lemma plan_nth:
  "i < nat num_threads \<Longrightarrow>
   map (chunk_bounds max_n cs num_threads) (py_range num_threads) ! i =
     chunk_bounds max_n cs num_threads (int i)"
  by (simp add: py_range_def)

lemma plan_union:
  fixes max_n cs num_threads :: int
  assumes k: "1 \<le> num_threads" and cs: "0 \<le> cs" and le: "num_threads * cs \<le> max_n"
  shows "(\<Union>(s, e)\<in>set (map (chunk_bounds max_n cs num_threads) (py_range num_threads)). {s..e})
           = {1..max_n}"
proof -
  define m where "m = nat (num_threads - 1)"
  have km: "nat num_threads = Suc m" "int m = num_threads - 1" using k by (simp_all add: m_def)
  have inner: "chunk_bounds max_n cs num_threads (int i) = (int i * cs + 1, (int i + 1) * cs)"
    if "i < m" for i
    using that km by (intro chunk_bounds_inner) simp
  have lastc: "chunk_bounds max_n cs num_threads (int m) = (int m * cs + 1, max_n)"
    using chunk_bounds_last[of max_n cs num_threads] km by simp
  have set_eq: "set (map (chunk_bounds max_n cs num_threads) (py_range num_threads)) =
      (\<lambda>i. chunk_bounds max_n cs num_threads (int i)) ` {..<Suc m}"
    unfolding py_range_def km(1) by (simp only: set_map set_upt image_image atLeast0LessThan)
  have pre: "(\<Union>i<m. case chunk_bounds max_n cs num_threads (int i) of (s, e) \<Rightarrow> {s..e})
       = {1..int m * cs}"
    using chunk_union_prefix[OF cs, of m] by (auto simp: inner)
  have m0: "0 \<le> int m * cs" using cs by simp
  have mle: "int m * cs \<le> max_n"
  proof -
    have "int m * cs \<le> num_threads * cs" using km cs by (intro mult_right_mono) simp_all
    with le show ?thesis by linarith
  qed
  have "(\<Union>(s, e)\<in>set (map (chunk_bounds max_n cs num_threads) (py_range num_threads)). {s..e})
        = (\<Union>i<Suc m. case chunk_bounds max_n cs num_threads (int i) of (s, e) \<Rightarrow> {s..e})"
    by (simp only: set_eq image_image)
  also have "\<dots> = (\<Union>i<m. case chunk_bounds max_n cs num_threads (int i) of (s, e) \<Rightarrow> {s..e})
       \<union> {int m * cs + 1..max_n}"
    using lastc by (simp add: lessThan_Suc Un_commute)
  also have "\<dots> = {1..int m * cs} \<union> {int m * cs + 1..max_n}"
    by (simp only: pre)
  also have "\<dots> = {1..max_n}"
    using m0 mle by auto
  finally show ?thesis .
qed

text \<open>The plan of a concrete call, computed.\<close>

lemma py_range_4: "py_range 4 = [0, 1, 2, 3]"
  by (simp add: py_range_def eval_nat_numeral)

lemma partition_example:
  "max_terms (1 / 2) = Inr 102 \<and> floor_div 102 4 = Inr 25 \<and>
   map (chunk_bounds 102 25 4) (py_range 4) = [(1, 25), (26, 50), (51, 75), (76, 102)]"
  by (simp add: max_terms_def no_overflow_small round_double_two floor_div_def py_range_4
      chunk_bounds_def)

text \<open>
  Claim C3, as the code has it. For every \<open>epsilon > 0\<close> whose reciprocal is finite in
  double arithmetic and every \<open>num_threads \<ge> 1\<close>, the plan both parallel functions compute
  (\<open>max_n = int(math.ceil(1 / epsilon)) + 100\<close> with the quotient a rounded double,
  \<open>chunk_size = max_n // num_threads\<close>, chunk \<open>i\<close> with the bounds of \<open>chunk_bounds\<close>) has
  \<open>num_threads\<close> chunks that start at \<open>1\<close>, end at \<open>max_n\<close>, are contiguous (each chunk
  starts one past the end of the one before, and no chunk ends more than one before its
  start), do not overlap, and whose union is exactly the integer interval \<open>[1, max_n]\<close>.
\<close>

theorem partition_covers:
  assumes "0 < epsilon" and "\<not> float_overflow (1 / epsilon)" and "1 \<le> num_threads"
  shows "\<exists>max_n chunk_size plan.
     max_terms epsilon = Inr max_n \<and> max_n = \<lceil>round_double (1 / epsilon)\<rceil> + 100 \<and>
     floor_div max_n num_threads = Inr chunk_size \<and>
     plan = map (chunk_bounds max_n chunk_size num_threads) (py_range num_threads) \<and>
     length plan = nat num_threads \<and>
     fst (plan ! 0) = 1 \<and> snd (last plan) = max_n \<and>
     (\<forall>i. Suc i < length plan \<longrightarrow> fst (plan ! Suc i) = snd (plan ! i) + 1) \<and>
     (\<forall>i. i < length plan \<longrightarrow> fst (plan ! i) \<le> snd (plan ! i) + 1) \<and>
     (\<forall>i j. i < j \<and> j < length plan \<longrightarrow>
        {fst (plan ! i)..snd (plan ! i)} \<inter> {fst (plan ! j)..snd (plan ! j)} = {}) \<and>
     (\<Union>(start_n, end_n)\<in>set plan. {start_n..end_n}) = {1..max_n}"
proof -
  define max_n where "max_n = \<lceil>round_double (1 / epsilon)\<rceil> + 100"
  define cs where "cs = max_n div num_threads"
  define plan where "plan = map (chunk_bounds max_n cs num_threads) (py_range num_threads)"
  have mt: "max_terms epsilon = Inr max_n" and m0: "0 \<le> max_n"
    using max_terms_finite[OF assms(1,2)] by (simp_all add: max_n_def)
  have fd: "floor_div max_n num_threads = Inr cs"
    using assms(3) by (simp add: floor_div_def cs_def)
  have cs0: "0 \<le> cs" and kcs: "num_threads * cs \<le> max_n"
    using chunk_size_bounds[of max_n num_threads] m0 assms(3) by (simp_all add: cs_def)
  have len: "length plan = nat num_threads" by (simp add: plan_def py_range_def)
  have nth: "plan ! i = chunk_bounds max_n cs num_threads (int i)" if "i < nat num_threads" for i
    unfolding plan_def by (rule plan_nth[OF that])
  have ics: "(int i + 1) * cs \<le> max_n" if "int i < num_threads - 1" for i
  proof -
    have "(int i + 1) * cs \<le> num_threads * cs" using that cs0 by (intro mult_right_mono) simp_all
    with kcs show ?thesis by linarith
  qed
  have first: "fst (plan ! 0) = 1"
    using nth[of 0] assms(3) by (simp add: chunk_bounds_def)
  have lastp: "snd (last plan) = max_n"
  proof -
    have "plan \<noteq> []" using len assms(3) by auto
    then have "last plan = plan ! (nat num_threads - 1)" by (simp add: last_conv_nth len)
    also have "\<dots> = chunk_bounds max_n cs num_threads (int (nat num_threads - 1))"
      using assms(3) by (intro nth) simp
    finally show ?thesis using assms(3) by (simp add: chunk_bounds_def)
  qed
  have contiguous: "\<forall>i. Suc i < length plan \<longrightarrow> fst (plan ! Suc i) = snd (plan ! i) + 1"
  proof (intro allI impI)
    fix i assume a: "Suc i < length plan"
    then have "int i < num_threads - 1" using len by linarith
    then show "fst (plan ! Suc i) = snd (plan ! i) + 1"
      using a len nth[of i] nth[of "Suc i"] by (simp add: chunk_bounds_def algebra_simps)
  qed
  have wellformed: "\<forall>i. i < length plan \<longrightarrow> fst (plan ! i) \<le> snd (plan ! i) + 1"
  proof (intro allI impI)
    fix i assume a: "i < length plan"
    show "fst (plan ! i) \<le> snd (plan ! i) + 1"
    proof (cases "int i < num_threads - 1")
      case True
      then show ?thesis using a len nth[of i] cs0 by (simp add: chunk_bounds_def algebra_simps)
    next
      case False
      have "int i * cs \<le> num_threads * cs"
        using a len cs0 by (intro mult_right_mono) simp_all
      with kcs False show ?thesis using a len nth[of i] by (simp add: chunk_bounds_def)
    qed
  qed
  have disjoint: "\<forall>i j. i < j \<and> j < length plan \<longrightarrow>
        {fst (plan ! i)..snd (plan ! i)} \<inter> {fst (plan ! j)..snd (plan ! j)} = {}"
  proof (intro allI impI)
    fix i j assume a: "i < j \<and> j < length plan"
    then have i: "int i < num_threads - 1" using len by linarith
    have "(int i + 1) * cs \<le> int j * cs" using a cs0 by (intro mult_right_mono) simp_all
    then have "snd (plan ! i) < fst (plan ! j)"
      using a i len nth[of i] nth[of j] by (simp add: chunk_bounds_def)
    then show "{fst (plan ! i)..snd (plan ! i)} \<inter> {fst (plan ! j)..snd (plan ! j)} = {}"
      by auto
  qed
  have cover: "(\<Union>(start_n, end_n)\<in>set plan. {start_n..end_n}) = {1..max_n}"
    unfolding plan_def by (rule plan_union[OF assms(3) cs0 kcs])
  show ?thesis
    using mt fd len first lastp contiguous wellformed disjoint cover
    unfolding max_n_def[symmetric] plan_def[symmetric]
    by (intro exI[of _ max_n] exI[of _ cs] exI[of _ plan]) (simp add: max_n_def plan_def)
qed

theorem partition_covers_witness:
  "(0::real) < 1 / 2 \<and> \<not> float_overflow (1 / (1 / 2)) \<and> (1::int) \<le> 4 \<and>
   max_terms (1 / 2) = Inr 102 \<and> floor_div 102 4 = Inr 25 \<and>
   (\<Union>(start_n, end_n)\<in>set [(1, 25), (26, 50), (51, 75), (76, 102)]. {start_n..end_n})
     = {1..102::int}"
proof -
  have h1: "(0::real) < 1 / 2" by simp
  have h2: "\<not> float_overflow (1 / (1 / 2))" by (rule no_overflow_small) simp
  have h3: "(1::int) \<le> 4" by simp
  have e1: "max_terms (1 / 2) = Inr 102" and e2: "floor_div 102 4 = Inr 25"
    and e3: "map (chunk_bounds 102 25 4) (py_range 4) = [(1, 25), (26, 50), (51, 75), (76, 102)]"
    using partition_example by simp_all
  from partition_covers[OF h1 h2 h3]
  obtain max_n chunk_size plan where p: "max_terms (1 / 2) = Inr max_n"
    "floor_div max_n 4 = Inr chunk_size"
    "plan = map (chunk_bounds max_n chunk_size 4) (py_range 4)"
    "(\<Union>(start_n, end_n)\<in>set plan. {start_n..end_n}) = {1..max_n}"
    by (elim exE conjE) (rule that; assumption)
  from p(1) e1 have m: "max_n = 102" by simp
  from p(2) e2 have cs: "chunk_size = 25" unfolding m by simp
  have pl: "plan = [(1, 25), (26, 50), (51, 75), (76, 102)]"
    unfolding p(3) m cs by (rule e3)
  from p(4) have u: "(\<Union>(start_n, end_n)\<in>set [(1, 25), (26, 50), (51, 75), (76, 102)].
      {start_n..end_n}) = {1..102::int}"
    unfolding pl m .
  show ?thesis
    by (rule conjI[OF h1 conjI[OF h2 conjI[OF h3 conjI[OF e1 conjI[OF e2 u]]]]])
qed

text \<open>
  The claim C3 as it is worded, a partition for every \<open>epsilon > 0\<close>, fails at
  \<open>epsilon = 5e-324 = 2^-1074\<close>: \<open>1 / epsilon\<close> is an infinity, \<open>math.ceil\<close> raises
  \<open>OverflowError\<close>, and both functions raise it before any chunk is formed.
\<close>

theorem partition_covers_counterexample:
  "0 < pow2 (- 1074) \<and> max_terms (pow2 (- 1074)) = Inl OverflowError \<and>
   calculate_series_sum_multi_threaded exact_libm 0 (pow2 (- 1074)) 1 = Inl OverflowError \<and>
   calculate_with_threadpool exact_libm 0 (pow2 (- 1074)) 1 = Inl OverflowError"
  by (simp add: pow2_pos max_terms_tiny calculate_series_sum_multi_threaded_def
      calculate_with_threadpool_def)

section \<open>Properties of the parallel variants\<close>

text \<open>
  What a thread does to the list: if the worker of its chunk returns, its slot receives
  the value; if the worker raises, the list is left as it was.
\<close>

lemma run_thread_slot:
  assumes "i < length rs"
  shows "run_thread lm x epsilon max_n cs k rs (int i) =
     (case (case chunk_bounds max_n cs k (int i) of
              (start_n, end_n) \<Rightarrow> worker lm x epsilon start_n end_n) of
        Inl e \<Rightarrow> rs
      | Inr v \<Rightarrow> rs[i := v])"
proof -
  obtain s e where se: "chunk_bounds max_n cs k (int i) = (s, e)"
    by (cases "chunk_bounds max_n cs k (int i)")
  show ?thesis
    using assms
    by (cases "partial_sum_loop lm x e epsilon 0 s")
      (simp_all add: run_thread_def se calculate_partial_sum_def worker_def list_setitem_def)
qed

lemma run_thread_length:
  assumes "i < length rs"
  shows "length (run_thread lm x epsilon max_n cs k rs (int i)) = length rs"
  unfolding run_thread_slot[OF assms] by (simp split: sum.splits)

text \<open>
  Two threads commute, whichever runs first: the order in which the model runs the
  threads is no restriction.
\<close>

lemma run_thread_commute:
  assumes "i < length rs" "j < length rs"
  shows "run_thread lm x epsilon max_n cs k (run_thread lm x epsilon max_n cs k rs (int i)) (int j) =
         run_thread lm x epsilon max_n cs k (run_thread lm x epsilon max_n cs k rs (int j)) (int i)"
proof -
  have li: "i < length (run_thread lm x epsilon max_n cs k rs (int j))"
    and lj: "j < length (run_thread lm x epsilon max_n cs k rs (int i))"
    using assms by (simp_all add: run_thread_length)
  show ?thesis
    unfolding run_thread_slot[OF li] run_thread_slot[OF lj]
    unfolding run_thread_slot[OF assms(1)] run_thread_slot[OF assms(2)]
    by (cases "i = j") (simp_all add: list_update_swap split: sum.splits)
qed

text \<open>While every worker returns, the threads fill the list slot by slot.\<close>

lemma run_threads_prefix:
  assumes "m \<le> length rs" "m \<le> length vs"
    and "\<And>i. i < m \<Longrightarrow>
           (case chunk_bounds max_n cs k (int i) of
              (start_n, end_n) \<Rightarrow> worker lm x epsilon start_n end_n) = Inr (vs ! i)"
  shows "foldl (run_thread lm x epsilon max_n cs k) rs (map int [0..<m]) = take m vs @ drop m rs"
  using assms
proof (induction m)
  case 0
  show ?case by simp
next
  case (Suc m)
  let ?done = "take m vs @ drop m rs"
  have IH: "foldl (run_thread lm x epsilon max_n cs k) rs (map int [0..<m]) = ?done"
    using Suc.prems by (intro Suc.IH) simp_all
  have len: "m < length ?done" using Suc.prems(1,2) by simp
  have w: "(case chunk_bounds max_n cs k (int m) of
              (start_n, end_n) \<Rightarrow> worker lm x epsilon start_n end_n) = Inr (vs ! m)"
    by (rule Suc.prems(3)) simp
  have "foldl (run_thread lm x epsilon max_n cs k) rs (map int [0..<Suc m]) =
        run_thread lm x epsilon max_n cs k ?done (int m)"
    using IH by simp
  also have "\<dots> = ?done[m := vs ! m]"
    unfolding run_thread_slot[OF len] by (simp add: w)
  also have "\<dots> = take m vs @ (drop m rs)[0 := vs ! m]"
    using Suc.prems(2) by (simp add: list_update_append)
  also have "drop m rs = rs ! m # drop (Suc m) rs"
    using Suc.prems(1) by (simp add: Cons_nth_drop_Suc)
  finally show ?case
    using Suc.prems(2) by (simp add: take_Suc_conv_app_nth)
qed

lemma sum_futures_all_returned:
  "sum_futures (map Inr vs) acc = Inr (foldl (+) acc vs)"
  by (induction vs arbitrary: acc) simp_all

text \<open>
  What does hold of the two variants: they compute the same plan and the same per-chunk
  results, and whenever every worker returns, both return the sum of the partial sums
  in chunk-index order.
\<close>

lemma parallel_variants_agree:
  assumes "max_terms epsilon = Inr max_n" "floor_div max_n num_threads = Inr chunk_size"
    and "1 \<le> num_threads"
    and "map (\<lambda>i. case chunk_bounds max_n chunk_size num_threads i of
                     (start_n, end_n) \<Rightarrow> worker lm x epsilon start_n end_n)
           (py_range num_threads) = map Inr partial_sums"
  shows "calculate_series_sum_multi_threaded lm x epsilon num_threads = Inr (py_sum partial_sums)"
    and "calculate_with_threadpool lm x epsilon num_threads = Inr (py_sum partial_sums)"
proof -
  have len: "length partial_sums = nat num_threads"
    using arg_cong[OF assms(4), of length] by (simp add: py_range_def)
  have nth: "(case chunk_bounds max_n chunk_size num_threads (int i) of
                (start_n, end_n) \<Rightarrow> worker lm x epsilon start_n end_n) = Inr (partial_sums ! i)"
    if "i < nat num_threads" for i
    using arg_cong[OF assms(4), of "\<lambda>l. l ! i"] that len by (simp add: py_range_def)
  have "foldl (run_thread lm x epsilon max_n chunk_size num_threads)
          (replicate (nat num_threads) 0) (py_range num_threads)
        = take (nat num_threads) partial_sums @ drop (nat num_threads) (replicate (nat num_threads) 0)"
    unfolding py_range_def using len nth by (intro run_threads_prefix) simp_all
  also have "\<dots> = partial_sums" using len by simp
  finally show "calculate_series_sum_multi_threaded lm x epsilon num_threads =
      Inr (py_sum partial_sums)"
    by (simp add: calculate_series_sum_multi_threaded_def assms(1,2))
  show "calculate_with_threadpool lm x epsilon num_threads = Inr (py_sum partial_sums)"
    using assms(3)
    by (simp add: calculate_with_threadpool_def assms(1,2,4) sum_futures_all_returned py_sum_def)
qed

text \<open>The plan of the call with \<open>epsilon = 0.5\<close> and one thread: the single chunk \<open>[1, 102]\<close>.\<close>

lemma py_range_1: "py_range 1 = [0]"
  by (simp add: py_range_def)

lemma max_terms_half: "max_terms (1 / 2) = Inr 102"
  by (simp add: max_terms_def no_overflow_small round_double_two)

text \<open>
  At \<open>x = 2.0 ** 1023\<close> the worker of that chunk adds the first term, when the cosine
  there is at least \<open>0.5\<close> in magnitude, and raises at \<open>n = 2\<close>, where \<open>n * x\<close> overflows.
\<close>

lemma worker_overflows:
  assumes "1 / 2 \<le> \<bar>libm_cos lm (pow2 1023)\<bar>"
  shows "worker lm (pow2 1023) (1 / 2) 1 102 = Inl ValueError"
proof -
  have f1: "float_of_int 1 = Inr 1" using float_of_int_small[of 1] by simp
  have f2: "float_of_int 2 = Inr 2" using float_of_int_small[of 2] by simp
  have no: "\<not> float_overflow (pow2 1023)"
    by (rule no_float_overflow_le[of 1023]) (simp_all add: abs_pow2)
  have rd: "round_double (pow2 1023) = pow2 1023" by (rule round_double_pow2) simp
  have "pow2 (- 1) \<le> \<bar>libm_cos lm (pow2 1023)\<bar>" using assms by (simp add: pow2_neg_1)
  then have "pow2 (- 1) \<le> \<bar>round_double (libm_cos lm (pow2 1023))\<bar>"
    by (intro round_double_lower) simp_all
  then have above: "\<not> \<bar>round_double (libm_cos lm (pow2 1023))\<bar> < 1 / 2"
    by (simp add: pow2_neg_1)
  have t1: "series_term lm (pow2 1023) 1 = Inr (round_double (libm_cos lm (pow2 1023)))"
    by (simp add: series_term_def f1 no rd)
  have "2 * pow2 1023 = pow2 1024" using pow2_add[of 1 1023] by (simp add: pow2_1)
  then have "float_overflow (2 * pow2 1023)"
    by (intro float_overflow_ge) (simp add: abs_pow2)
  then have t2: "series_term lm (pow2 1023) 2 = Inl ValueError"
    by (simp add: series_term_def f2)
  have step1: "partial_sum_loop lm (pow2 1023) 102 (1 / 2) 0 1 =
      partial_sum_loop lm (pow2 1023) 102 (1 / 2)
        (round_double (libm_cos lm (pow2 1023))) 2"
    using above by (subst partial_sum_loop.simps) (simp add: t1)
  have step2: "partial_sum_loop lm (pow2 1023) 102 (1 / 2) acc 2 = Inl ValueError" for acc
    by (subst partial_sum_loop.simps) (simp add: t2)
  show ?thesis
    unfolding worker_def step1 by (rule step2)
qed

text \<open>
  Claim C4, at an input where the code departs from it: \<open>x = 2.0 ** 1023\<close>,
  \<open>epsilon = 0.5\<close>, one thread. For every C library whose cosine at \<open>2.0 ** 1023\<close> is at
  least \<open>0.5\<close> in magnitude (CPython returns \<open>-0.826...\<close>), the worker raises \<open>ValueError\<close>;
  \<open>calculate_with_threadpool\<close> raises it, and \<open>calculate_series_sum_multi_threaded\<close>
  returns \<open>0.0\<close>. The two functions do not return the same value.
\<close>

theorem thread_variant_swallows_worker_error:
  assumes "1 / 2 \<le> \<bar>libm_cos lm (pow2 1023)\<bar>"
  shows "calculate_series_sum_multi_threaded lm (pow2 1023) (1 / 2) 1 = Inr 0 \<and>
         calculate_with_threadpool lm (pow2 1023) (1 / 2) 1 = Inl ValueError"
proof -
  have w: "worker lm (pow2 1023) (1 / 2) 1 102 = Inl ValueError"
    by (rule worker_overflows[OF assms])
  then have loop: "partial_sum_loop lm (pow2 1023) 102 (1 / 2) 0 1 = Inl ValueError"
    by (simp add: worker_def)
  have "run_thread lm (pow2 1023) (1 / 2) 102 102 1 [0] 0 = [0]"
    by (simp add: run_thread_def chunk_bounds_def calculate_partial_sum_def loop)
  then have "calculate_series_sum_multi_threaded lm (pow2 1023) (1 / 2) 1 = Inr 0"
    by (simp add: calculate_series_sum_multi_threaded_def max_terms_half floor_div_def
        py_range_1 py_sum_def)
  moreover have "calculate_with_threadpool lm (pow2 1023) (1 / 2) 1 = Inl ValueError"
    by (simp add: calculate_with_threadpool_def max_terms_half floor_div_def py_range_1
        chunk_bounds_def w)
  ultimately show ?thesis by simp
qed

theorem thread_variant_swallows_worker_error_witness:
  "1 / 2 \<le> \<bar>libm_cos table_libm (pow2 1023)\<bar> \<and>
   calculate_series_sum_multi_threaded table_libm (pow2 1023) (1 / 2) 1 = Inr 0 \<and>
   calculate_with_threadpool table_libm (pow2 1023) (1 / 2) 1 = Inl ValueError"
proof -
  have h: "1 / 2 \<le> \<bar>libm_cos table_libm (pow2 1023)\<bar>"
    by (simp add: table_libm_def)
  from thread_variant_swallows_worker_error[OF h] h show ?thesis by simp
qed

lemma no_overflow_one: "\<not> float_overflow (1 / 1)"
  by (rule no_overflow_small) simp

text \<open>
  Claim C6, as the code has it. For \<open>epsilon > 0\<close> and \<open>num_threads \<le> 0\<close>: when
  \<open>1 / epsilon\<close> overflows, both functions raise \<open>OverflowError\<close> from \<open>math.ceil\<close>.
  Otherwise \<open>calculate_with_threadpool\<close> raises (\<open>ZeroDivisionError\<close> from
  \<open>max_n // num_threads\<close> when \<open>num_threads = 0\<close>, \<open>ValueError\<close> from the executor's
  constructor when \<open>num_threads < 0\<close>), and \<open>calculate_series_sum_multi_threaded\<close> raises
  \<open>ZeroDivisionError\<close> when \<open>num_threads = 0\<close> and, when \<open>num_threads < 0\<close>, starts no thread
  and returns \<open>0\<close>.
\<close>

theorem nonpositive_threads:
  assumes "0 < epsilon" and "num_threads \<le> 0"
  shows "calculate_with_threadpool lm x epsilon num_threads =
           Inl (if float_overflow (1 / epsilon) then OverflowError
                else if num_threads = 0 then ZeroDivisionError else ValueError) \<and>
         calculate_series_sum_multi_threaded lm x epsilon num_threads =
           (if float_overflow (1 / epsilon) then Inl OverflowError
            else if num_threads = 0 then Inl ZeroDivisionError else Inr 0)"
  using assms
  by (simp add: calculate_with_threadpool_def calculate_series_sum_multi_threaded_def
      max_terms_def floor_div_def py_range_def py_sum_def)

theorem nonpositive_threads_witness:
  "(0::real) < 1 \<and> (0::int) \<le> 0 \<and> (- 3::int) \<le> 0 \<and>
   calculate_with_threadpool exact_libm 0 1 0 = Inl ZeroDivisionError \<and>
   calculate_series_sum_multi_threaded exact_libm 0 1 0 = Inl ZeroDivisionError \<and>
   calculate_with_threadpool exact_libm 0 1 (- 3) = Inl ValueError \<and>
   calculate_series_sum_multi_threaded exact_libm 0 1 (- 3) = Inr 0"
  using nonpositive_threads[where epsilon = 1 and num_threads = 0 and x = 0 and lm = exact_libm]
    nonpositive_threads[where epsilon = 1 and num_threads = "- 3" and x = 0 and lm = exact_libm]
    no_overflow_one
  by simp

text \<open>
  The claim C6 as it is worded fails for a negative \<open>num_threads\<close> in the thread variant:
  \<open>max_n = 101\<close>, \<open>chunk_size = 101 // -1 = -101\<close>, \<open>[0.0] * -1\<close> is the empty list,
  \<open>range(-1)\<close> is empty, and \<open>sum([])\<close> is returned.
\<close>

theorem nonpositive_threads_counterexample:
  "(- 1::int) \<le> 0 \<and> (0::real) < 1 \<and>
   calculate_series_sum_multi_threaded exact_libm 0 1 (- 1) = Inr 0"
  using no_overflow_one
  by (simp add: calculate_series_sum_multi_threaded_def
      max_terms_def floor_div_def py_range_def py_sum_def)

section \<open>Properties of the closed form\<close>

text \<open>
  Claim C7, as the code has it. Let \<open>s\<close> be the value \<open>math.sin\<close> returns at the double
  \<open>x / 2\<close> (the quotient is rounded: it is \<open>0.0\<close> at \<open>x = 5e-324\<close>). For every \<open>x\<close> with
  \<open>s \<le> 0\<close>, \<open>get_control_value\<close> fails with the domain error of \<open>math.log\<close>; for every \<open>x\<close>
  with \<open>s > 0\<close> it returns \<open>-ln(2 * s)\<close>.
\<close>

theorem control_value_domain:
  "(libm_sin lm (round_double (x / 2)) \<le> 0 \<longrightarrow> get_control_value lm x = Inl ValueError) \<and>
   (0 < libm_sin lm (round_double (x / 2)) \<longrightarrow>
      get_control_value lm x = Inr (- ln (2 * libm_sin lm (round_double (x / 2)))))"
  by (simp add: get_control_value_def math_log_def)

theorem control_value_domain_witness:
  "libm_sin exact_libm (round_double (0 / 2)) \<le> 0 \<and>
   get_control_value exact_libm 0 = Inl ValueError \<and>
   0 < libm_sin exact_libm (round_double (2 / 2)) \<and>
   get_control_value exact_libm 2 = Inr (- ln (2 * sin 1))"
proof -
  have s0: "libm_sin exact_libm (round_double 0) = 0"
    by (simp add: exact_libm_def round_double_zero)
  have s1: "libm_sin exact_libm (round_double 1) = sin 1"
    by (simp add: exact_libm_def round_double_one)
  have pos: "0 < sin (1::real)" by (rule sin_gt_zero_02) simp_all
  from control_value_domain[of exact_libm 0] control_value_domain[of exact_libm 2]
  show ?thesis using pos by (simp add: s0 s1)
qed

text \<open>
  The claim C7 as it is worded, with the exact value of \<open>sin(x/2)\<close>, fails at the smallest
  positive double \<open>x = 5e-324 = 2^-1074\<close>: the exact \<open>sin(x/2)\<close> is positive, but \<open>x / 2\<close>
  underflows to \<open>0.0\<close>, \<open>math.sin(0.0)\<close> is \<open>0.0\<close> and \<open>math.log(0.0)\<close> raises \<open>ValueError\<close>.
\<close>

theorem control_value_domain_counterexample:
  "0 < sin (pow2 (- 1074) / 2) \<and>
   get_control_value exact_libm (pow2 (- 1074)) = Inl ValueError"
proof -
  have e: "pow2 (- 1074) / 2 = pow2 (- 1075)"
    using pow2_half[of "- 1075"] by simp
  have "pow2 (- 1075) \<le> pow2 0" by (simp add: pow2_le_iff)
  then have "pow2 (- 1075) < 2" by (simp add: pow2_0)
  then have "0 < sin (pow2 (- 1075))" using pow2_pos[of "- 1075"] by (intro sin_gt_zero_02)
  moreover have "get_control_value exact_libm (pow2 (- 1074)) = Inl ValueError"
    by (simp add: get_control_value_def round_double_tiny exact_libm_def math_log_def)
  ultimately show ?thesis by (simp add: e)
qed

text \<open>The test of \<open>math.isclose\<close> is a relative tolerance of \<open>1e-9\<close> on the larger magnitude.\<close>

lemma isclose_rel:
  "isclose a b \<longleftrightarrow> \<bar>b - a\<bar> \<le> (1 / 10 ^ 9) * max \<bar>a\<bar> \<bar>b\<bar>"
proof -
  define r :: real where "r = 1 / 10 ^ 9"
  have r0: "0 \<le> r" by (simp add: r_def)
  have sc: "\<bar>rel_tol * c\<bar> = r * \<bar>c\<bar>" for c
    by (simp add: rel_tol_def r_def abs_mult)
  have mx: "r * max \<bar>a\<bar> \<bar>b\<bar> = max (r * \<bar>a\<bar>) (r * \<bar>b\<bar>)"
    using r0 by (simp add: max_mult_distrib_left)
  have nn: "0 \<le> max (r * \<bar>a\<bar>) (r * \<bar>b\<bar>)"
    using r0 by (simp add: le_max_iff_disj)
  have "isclose a b \<longleftrightarrow>
      (a = b \<or> \<bar>b - a\<bar> \<le> r * \<bar>b\<bar> \<or> \<bar>b - a\<bar> \<le> r * \<bar>a\<bar> \<or> \<bar>b - a\<bar> \<le> 0)"
    by (simp only: isclose_def sc abs_tol_def)
  also have "\<dots> \<longleftrightarrow> \<bar>b - a\<bar> \<le> max (r * \<bar>a\<bar>) (r * \<bar>b\<bar>)"
    using nn by (auto simp: le_max_iff_disj)
  finally have "isclose a b \<longleftrightarrow> \<bar>b - a\<bar> \<le> r * max \<bar>a\<bar> \<bar>b\<bar>"
    by (simp only: mx)
  then show ?thesis by (simp only: r_def)
qed

text \<open>
  Claim C8. For every \<open>x\<close>, \<open>calculate_analytical_sum\<close> returns \<open>-ln(2)\<close> when \<open>x\<close> is close
  to \<open>pi\<close> in the sense of \<open>math.isclose\<close>, that is \<open>|pi - x| \<le> 1e-9 * max(|x|, |pi|)\<close>, and
  otherwise returns what \<open>get_control_value\<close> does; in particular it returns \<open>-ln(2)\<close> at
  \<open>x = pi\<close>.
\<close>

theorem analytical_sum_cases:
  "calculate_analytical_sum lm x =
     (if isclose x pi then Inr (- ln 2) else get_control_value lm x) \<and>
   (isclose x pi \<longleftrightarrow> \<bar>pi - x\<bar> \<le> (1 / 10 ^ 9) * max \<bar>x\<bar> \<bar>pi\<bar>) \<and>
   calculate_analytical_sum lm pi = Inr (- ln 2)"
  by (simp add: calculate_analytical_sum_def math_log_def isclose_rel)

theorem analytical_sum_cases_witness:
  "calculate_analytical_sum exact_libm 0 = Inl ValueError \<and> \<not> isclose 0 pi \<and>
   calculate_analytical_sum exact_libm pi = Inr (- ln 2)"
proof -
  have "\<not> pi \<le> 1 / 10 ^ 9 * pi" using pi_gt_zero by simp
  then have far: "\<not> isclose 0 pi" using analytical_sum_cases[of exact_libm 0] by simp
  have "get_control_value exact_libm 0 = Inl ValueError"
    by (simp add: get_control_value_def math_log_def exact_libm_def round_double_zero)
  with far analytical_sum_cases[of exact_libm 0] analytical_sum_cases[of exact_libm pi]
  show ?thesis by simp
qed


end
